theory Spec2Isabelle
  imports Main "HOL-Library.Word"
begin

section \<open>The iTag sketches\<close>

text \<open>
  The repository holds two Arduino sketches that watch a fixed table of BLE iTags:
  \<^item> ITAGFINDER (\<^verbatim>\<open>Itag/src/main.cpp\<close>, on the NimBLE library), the reference sketch with
    buzzer, LED and the deferred scan restart;
  \<^item> ITAGTEST (\<^verbatim>\<open>src/main.cpp\<close>, on the ESP32 BLE library), the earlier sketch.
  Functions of ITAGFINDER keep their names; the functions of ITAGTEST that are modelled
  carry the suffix \<open>_itagtest\<close>.

  The BLE library is outside the repository. Every call into it is modelled by what the
  sketch can observe of it: the answers it returns (a \<open>connect_reply\<close>), the callbacks
  it runs before it returns, and the connection flag \<open>isConnected\<close> that it keeps for each
  client. \<open>millis()\<close> is a parameter of every function that reads the clock.
\<close>

subsection \<open>Data\<close>

text \<open>A pointer to a remote characteristic: \<open>None\<close> is \<^verbatim>\<open>NULL\<close>.\<close>

type_synonym ptr = "nat option"

text \<open>
  \<^verbatim>\<open>struct itag_t\<close>. \<^verbatim>\<open>setup()\<close> gives tag \<open>i\<close> an address object built from
  \<open>ItagAddress\<close> and a client of its own, and nothing assigns \<^verbatim>\<open>pServerAddress\<close> or
  \<^verbatim>\<open>pClient\<close> afterwards: the model describes the sketch after \<^verbatim>\<open>setup()\<close> and names the
  client of tag \<open>i\<close> by the index \<open>i\<close>.
\<close>

record itag_t =
  ItagAddress :: string
  pRemChar :: ptr
  advertized :: bool
  oldmillis :: "32 word"

text \<open>
  The lines written to \<^verbatim>\<open>Serial\<close>, one constructor for each print statement of the
  functions modelled, with the values it prints (\<open>Found\<close> carries the address of the
  advertising device, which stands for the description that ITAGFINDER prints).
\<close>

datatype msg =
    Blank
  | StartItagFinder
  | Found string
  | ScanEnded
  | ConnectedTo string
  | DisconnectedFrom string
  | NotifyFrom nat
  | NoServerConnection nat
  | FailedBatteryService
  | BatteryIs "8 word"
  | FoundButtonService
  | ServiceCanNotify
  | Descriptor2902Exists
  | Descriptor2902Missing
  | NotificationCallbackSet
  | SettingCallbackFailed
  | ButtonNotifyNotActivated
  | ButtonServiceNotFound
  | TryConnect nat string

text \<open>
  The calls that change what the radio does: the scan (\<^verbatim>\<open>start\<close>, \<^verbatim>\<open>stop\<close>,
  \<^verbatim>\<open>clearResults\<close>) and the connection of a client (\<^verbatim>\<open>connect\<close>, \<^verbatim>\<open>disconnect\<close>), in
  the order in which the sketch makes them.
\<close>

datatype radio_op =
    ScanStart nat
  | ScanStop
  | ScanClearResults
  | ClientConnect string
  | ClientDisconnect string

text \<open>
  The globals of the sketch (\<open>Itag\<close>, \<open>restartscan\<close>, \<open>beeptimer\<close>, and \<open>newcontime\<close>,
  the static of \<^verbatim>\<open>loop()\<close>), the outputs (buzzer duty of PWM channel 0, level of the
  LED pin, serial log, radio calls) and the connection flag of each client.
\<close>

record sys =
  Itag :: "itag_t list"
  restartscan :: bool
  beeptimer :: int
  newcontime :: "32 word"
  buzzer :: nat
  led :: bool
  serial :: "msg list"
  radio :: "radio_op list"
  isConnected :: "nat \<Rightarrow> bool"

definition NITAGS :: "sys \<Rightarrow> nat" where
  "NITAGS st = length (Itag st)"

definition NOTIFY :: bool where
  "NOTIFY = True"

text \<open>The callbacks of \<^verbatim>\<open>MyClientCallbacks\<close> that the library can run on a client.\<close>

datatype client_cb = Connected | Disconnected

text \<open>
  What the library answers during one call of \<^verbatim>\<open>connectToServer\<close>: the result of
  \<^verbatim>\<open>connect\<close>, the client callbacks it runs before \<^verbatim>\<open>connect\<close> returns, the value of
  \<^verbatim>\<open>isConnected()\<close> afterwards, and the results of the service and characteristic
  look-ups (\<open>batteryChar\<close> is \<open>None\<close> when the characteristic is missing and holds the
  value read otherwise; \<open>buttonChar\<close> is the pointer \<^verbatim>\<open>getCharacteristic\<close> returns).
\<close>

record connect_reply =
  res :: bool
  delivered :: "client_cb list"
  nowConnected :: bool
  batteryService :: bool
  batteryChar :: "8 word option"
  buttonService :: bool
  buttonChar :: ptr
  canNotify :: bool
  descriptor2902 :: bool
  subscribe :: bool

subsection \<open>ITAGFINDER\<close>

definition say :: "msg \<Rightarrow> sys \<Rightarrow> sys" where
  "say m st = st\<lparr>serial := serial st @ [m]\<rparr>"

definition beep :: "int \<Rightarrow> sys \<Rightarrow> sys" where
  "beep duration st = st\<lparr>beeptimer := duration, buzzer := 10\<rparr>"

definition handle_beeptimer :: "sys \<Rightarrow> sys" where
  "handle_beeptimer st =
     (if beeptimer st > 0 then
        (let st1 = st\<lparr>beeptimer := beeptimer st - 100\<rparr>
         in if beeptimer st1 \<le> 0 then st1\<lparr>buzzer := 0\<rparr> else st1)
      else st)"

text \<open>\<^verbatim>\<open>myADC::onResult\<close>: the body of the \<^verbatim>\<open>for\<close> loop, and the loop over all tags.\<close>

definition onResult_body :: "string \<Rightarrow> nat \<Rightarrow> sys \<Rightarrow> sys" where
  "onResult_body p i st =
     (if \<not> advertized (Itag st ! i) then
        (if ItagAddress (Itag st ! i) = p then
           say (Found p) (st\<lparr>Itag := (Itag st)[i := (Itag st ! i)\<lparr>advertized := True\<rparr>]\<rparr>)
         else st)
      else st)"

definition onResult :: "string \<Rightarrow> sys \<Rightarrow> sys" where
  "onResult p st = fold (onResult_body p) [0..<NITAGS st] st"

definition scanEndedCB :: "sys \<Rightarrow> sys" where
  "scanEndedCB st = say ScanEnded st"

text \<open>
  \<^verbatim>\<open>MyClientCallbacks\<close>. \<open>macstr\<close> is the text of \<^verbatim>\<open>pClient->getPeerAddress()\<close>. The
  search of \<^verbatim>\<open>onDisconnect\<close> leaves the loop at the first match.
\<close>

definition onConnect :: "string \<Rightarrow> sys \<Rightarrow> sys" where
  "onConnect macstr st = (say (ConnectedTo macstr) st)\<lparr>restartscan := True\<rparr>"

fun onDisconnect_for :: "string \<Rightarrow> nat list \<Rightarrow> sys \<Rightarrow> sys" where
  "onDisconnect_for macstr [] st = st"
| "onDisconnect_for macstr (i # is) st =
     (if ItagAddress (Itag st ! i) = macstr then
        st\<lparr>Itag := (Itag st)[i := (Itag st ! i)\<lparr>advertized := False\<rparr>]\<rparr>
      else onDisconnect_for macstr is st)"

definition onDisconnect :: "string \<Rightarrow> sys \<Rightarrow> sys" where
  "onDisconnect macstr st =
     (let st1 = say (DisconnectedFrom macstr) st;
          st2 = onDisconnect_for macstr [0..<NITAGS st1] st1
      in st2\<lparr>restartscan := True\<rparr>)"

text \<open>
  \<^verbatim>\<open>notifyCallback\<close>: \<open>newmillis\<close> is the value \<^verbatim>\<open>millis()\<close> returns. The comparison
  and the addition are those of \<^verbatim>\<open>uint32_t\<close>.
\<close>

fun notifyCallback_for :: "ptr \<Rightarrow> 32 word \<Rightarrow> nat list \<Rightarrow> sys \<Rightarrow> sys" where
  "notifyCallback_for pBLERemChar newmillis [] st = st"
| "notifyCallback_for pBLERemChar newmillis (i # is) st =
     (if pRemChar (Itag st ! i) = pBLERemChar then
        (if newmillis > oldmillis (Itag st ! i) + 500 then
           beep 500 (say (NotifyFrom i)
             (st\<lparr>Itag := (Itag st)[i := (Itag st ! i)\<lparr>oldmillis := newmillis\<rparr>]\<rparr>))
         else st)
      else notifyCallback_for pBLERemChar newmillis is st)"

definition notifyCallback :: "ptr \<Rightarrow> 32 word \<Rightarrow> sys \<Rightarrow> sys" where
  "notifyCallback pBLERemChar newmillis st =
     notifyCallback_for pBLERemChar newmillis [0..<NITAGS st] st"

text \<open>
  The call \<^verbatim>\<open>Itag[i].pClient->connect ( *Itag[i].pServerAddress )\<close>, as the sketch sees
  it: the radio is asked to connect to the address of tag \<open>i\<close>, the library runs the
  callbacks \<open>delivered r\<close> on this client (whose peer address is the address asked for),
  and the client is connected afterwards or not.
\<close>

fun deliver :: "string \<Rightarrow> client_cb \<Rightarrow> sys \<Rightarrow> sys" where
  "deliver macstr Connected st = onConnect macstr st"
| "deliver macstr Disconnected st = onDisconnect macstr st"

definition client_connect :: "nat \<Rightarrow> connect_reply \<Rightarrow> sys \<Rightarrow> sys" where
  "client_connect i r st =
     fold (deliver (ItagAddress (Itag st ! i))) (delivered r)
       (st\<lparr>radio := radio st @ [ClientConnect (ItagAddress (Itag st ! i))],
           isConnected := (isConnected st)(i := nowConnected r)\<rparr>)"

text \<open>\<^verbatim>\<open>connectToServer\<close>, called by \<^verbatim>\<open>loop()\<close> only, with \<open>i < NITAGS\<close>.\<close>

definition connectToServer :: "nat \<Rightarrow> connect_reply \<Rightarrow> sys \<Rightarrow> sys" where
  "connectToServer i r st =
     (let st1 = client_connect i r st
      in if \<not> isConnected st1 i \<or> \<not> res r then say (NoServerConnection i) st1
         else
           let st2 =
             (if \<not> batteryService r then say FailedBatteryService st1
              else (case batteryChar r of
                      Some battperc \<Rightarrow> say (BatteryIs battperc) st1
                    | None \<Rightarrow> st1))
           in if buttonService r then
                (let st3 = say FoundButtonService st2
                 in if NOTIFY then
                      (let st4 = st3\<lparr>Itag := (Itag st3)[i := (Itag st3 ! i)\<lparr>pRemChar := buttonChar r\<rparr>]\<rparr>
                       in if pRemChar (Itag st4 ! i) \<noteq> None then
                            (if canNotify r then
                               (let st5 = say ServiceCanNotify st4;
                                    st6 = (if descriptor2902 r then say Descriptor2902Exists st5
                                           else say Descriptor2902Missing st5)
                                in if subscribe r then say NotificationCallbackSet st6
                                   else say SettingCallbackFailed st6)
                             else st4)
                          else st4)
                    else say ButtonNotifyNotActivated st3)
              else say ButtonServiceNotFound st2)"

text \<open>
  \<^verbatim>\<open>loop()\<close>, block by block: the connection trials under the timer (\<open>loop_body\<close> is
  the body of the \<^verbatim>\<open>for\<close> loop), the service of \<open>restartscan\<close>, the buzzer timer.
  \<open>now\<close> is the value of \<^verbatim>\<open>millis()\<close> in the test of the timer and \<open>now'\<close> its value
  when the next trial is scheduled; \<open>rs i\<close> is what the library answers if tag \<open>i\<close> is
  connected to in this pass. \<^verbatim>\<open>delay ( 100 )\<close> changes nothing of the state.
\<close>

definition loop_body :: "(nat \<Rightarrow> connect_reply) \<Rightarrow> nat \<Rightarrow> sys \<Rightarrow> sys" where
  "loop_body rs i st =
     (if advertized (Itag st ! i) then
        (let st1 = st\<lparr>led := True\<rparr>
         in if \<not> isConnected st1 i then
              beep 1000
                (connectToServer i (rs i) (say (TryConnect i (ItagAddress (Itag st1 ! i))) st1))
            else st1)
      else st)"

definition loop_trials :: "32 word \<Rightarrow> 32 word \<Rightarrow> (nat \<Rightarrow> connect_reply) \<Rightarrow> sys \<Rightarrow> sys" where
  "loop_trials now now' rs st =
     (if now > newcontime st then
        (fold (loop_body rs) [0..<NITAGS st] (st\<lparr>led := False\<rparr>))\<lparr>newcontime := now' + 5000\<rparr>
      else st)"

definition loop_restart :: "sys \<Rightarrow> sys" where
  "loop_restart st =
     (if restartscan st then
        st\<lparr>restartscan := False,
           radio := radio st @ [ScanStop, ScanClearResults, ScanStart 0]\<rparr>
      else st)"

definition loop :: "32 word \<Rightarrow> 32 word \<Rightarrow> (nat \<Rightarrow> connect_reply) \<Rightarrow> sys \<Rightarrow> sys" where
  "loop now now' rs st = handle_beeptimer (loop_restart (loop_trials now now' rs st))"

text \<open>
  The globals as the sketch initialises them (the two pointers that are \<^verbatim>\<open>NULL\<close> until
  \<^verbatim>\<open>setup()\<close> are not represented, see \<open>itag_t\<close>), and what \<^verbatim>\<open>setup()\<close> does to them:
  it prints two lines and starts the scan for good. No client is connected then.
\<close>

definition boot :: sys where
  "boot =
     \<lparr>Itag =
        [\<lparr>ItagAddress = ''ff:ff:11:11:a2:fa'', pRemChar = None, advertized = False, oldmillis = 0\<rparr>,
         \<lparr>ItagAddress = ''ff:ff:22:21:ab:11'', pRemChar = None, advertized = False, oldmillis = 0\<rparr>,
         \<lparr>ItagAddress = ''ff:ff:77:70:4b:f0'', pRemChar = None, advertized = False, oldmillis = 0\<rparr>],
      restartscan = False, beeptimer = 0, newcontime = 0, buzzer = 0, led = False,
      serial = [], radio = [], isConnected = (\<lambda>i. False)\<rparr>"

definition setup_sketch :: "sys \<Rightarrow> sys" where
  "setup_sketch st =
     (say StartItagFinder (say Blank st))\<lparr>radio := radio st @ [ScanStart 0]\<rparr>"

subsection \<open>ITAGTEST\<close>

text \<open>
  The functions of the earlier sketch that the properties below speak about: the client
  callbacks, \<^verbatim>\<open>notifyCallback\<close> and \<^verbatim>\<open>connectToServer\<close>. They work on the same state;
  this sketch has no buzzer, no LED and no \<open>restartscan\<close>.
\<close>

definition onConnect_itagtest :: "string \<Rightarrow> sys \<Rightarrow> sys" where
  "onConnect_itagtest p st = say (ConnectedTo p) st"

definition onDisconnect_itagtest :: "string \<Rightarrow> sys \<Rightarrow> sys" where
  "onDisconnect_itagtest p st =
     say (DisconnectedFrom p) (st\<lparr>radio := radio st @ [ClientDisconnect p]\<rparr>)"

fun notifyCallback_for_itagtest :: "ptr \<Rightarrow> 32 word \<Rightarrow> nat list \<Rightarrow> sys \<Rightarrow> sys" where
  "notifyCallback_for_itagtest pBLERemChar newmillis [] st = st"
| "notifyCallback_for_itagtest pBLERemChar newmillis (i # is) st =
     (if pRemChar (Itag st ! i) = pBLERemChar then
        (if newmillis > oldmillis (Itag st ! i) + 500 then
           say (NotifyFrom i)
             (st\<lparr>Itag := (Itag st)[i := (Itag st ! i)\<lparr>oldmillis := newmillis\<rparr>]\<rparr>)
         else st)
      else notifyCallback_for_itagtest pBLERemChar newmillis is st)"

definition notifyCallback_itagtest :: "ptr \<Rightarrow> 32 word \<Rightarrow> sys \<Rightarrow> sys" where
  "notifyCallback_itagtest pBLERemChar newmillis st =
     notifyCallback_for_itagtest pBLERemChar newmillis [0..<NITAGS st] st"

fun deliver_itagtest :: "string \<Rightarrow> client_cb \<Rightarrow> sys \<Rightarrow> sys" where
  "deliver_itagtest p Connected st = onConnect_itagtest p st"
| "deliver_itagtest p Disconnected st = onDisconnect_itagtest p st"

definition client_connect_itagtest :: "nat \<Rightarrow> connect_reply \<Rightarrow> sys \<Rightarrow> sys" where
  "client_connect_itagtest i r st =
     fold (deliver_itagtest (ItagAddress (Itag st ! i))) (delivered r)
       (st\<lparr>radio := radio st @ [ClientConnect (ItagAddress (Itag st ! i))],
           isConnected := (isConnected st)(i := nowConnected r)\<rparr>)"

definition connectToServer_itagtest :: "nat \<Rightarrow> connect_reply \<Rightarrow> sys \<Rightarrow> sys" where
  "connectToServer_itagtest i r st =
     (let st1 = client_connect_itagtest i r st
      in if \<not> isConnected st1 i \<or> \<not> res r then say (NoServerConnection i) st1
         else
           let st2 =
             (if \<not> batteryService r then say FailedBatteryService st1
              else (case batteryChar r of
                      Some battperc \<Rightarrow> say (BatteryIs battperc) st1
                    | None \<Rightarrow> st1))
           in if buttonService r then
                (let st3 = say FoundButtonService st2;
                     st4 = st3\<lparr>Itag := (Itag st3)[i := (Itag st3 ! i)\<lparr>pRemChar := buttonChar r\<rparr>]\<rparr>
                 in if pRemChar (Itag st4 ! i) \<noteq> None then say NotificationCallbackSet st4
                    else st4)
              else say ButtonServiceNotFound st2)"

subsection \<open>ITAGFINDER and the library, event by event\<close>

text \<open>
  What can happen to the running ITAGFINDER: the library reports an advertisement, the
  end of a scan or a notification; it reports that the connection of the client of tag
  \<open>i\<close> is gone (the client is no longer connected, and \<^verbatim>\<open>onDisconnect\<close> runs with the
  tag's address as peer address); or \<^verbatim>\<open>loop()\<close> makes one pass. A run is a list of
  such events.
\<close>

datatype event =
    Advertisement string
  | ScanEnd
  | Notification ptr "32 word"
  | ConnectionLost nat
  | Pass "32 word" "32 word" "nat \<Rightarrow> connect_reply"

fun step :: "event \<Rightarrow> sys \<Rightarrow> sys" where
  "step (Advertisement p) st = onResult p st"
| "step ScanEnd st = scanEndedCB st"
| "step (Notification p newmillis) st = notifyCallback p newmillis st"
| "step (ConnectionLost i) st =
     (if i < NITAGS st \<and> isConnected st i then
        onDisconnect (ItagAddress (Itag st ! i)) (st\<lparr>isConnected := (isConnected st)(i := False)\<rparr>)
      else st)"
| "step (Pass now now' rs) st = loop now now' rs st"

definition run :: "event list \<Rightarrow> sys \<Rightarrow> sys" where
  "run evs st = fold step evs st"

subsection \<open>Sample inputs\<close>

text \<open>
  Answers of the library and states used to instantiate the theorems below: a connect
  that succeeds and finds everything, one that fails with no callback, one that succeeds
  on a tag without button service, one whose button characteristic cannot notify, one
  that returns false although the client is connected afterwards, one that returns
  false after the link was made and lost again (both client callbacks have run); the
  state after the first tag of the table has advertised and has been connected, and the
  state after that connection has been lost again.
\<close>

definition reply_ok :: connect_reply where
  "reply_ok =
     \<lparr>res = True, delivered = [Connected], nowConnected = True, batteryService = True,
      batteryChar = Some 87, buttonService = True, buttonChar = Some 7, canNotify = True,
      descriptor2902 = False, subscribe = True\<rparr>"

definition reply_fail :: connect_reply where
  "reply_fail =
     \<lparr>res = False, delivered = [], nowConnected = False, batteryService = False,
      batteryChar = None, buttonService = False, buttonChar = None, canNotify = False,
      descriptor2902 = False, subscribe = False\<rparr>"

definition reply_silent :: connect_reply where
  "reply_silent =
     \<lparr>res = True, delivered = [Connected], nowConnected = True, batteryService = False,
      batteryChar = None, buttonService = False, buttonChar = None, canNotify = False,
      descriptor2902 = False, subscribe = False\<rparr>"

definition reply_mute :: connect_reply where
  "reply_mute =
     \<lparr>res = True, delivered = [Connected], nowConnected = True, batteryService = True,
      batteryChar = None, buttonService = True, buttonChar = Some 7, canNotify = False,
      descriptor2902 = False, subscribe = False\<rparr>"

definition reply_refused :: connect_reply where
  "reply_refused =
     \<lparr>res = False, delivered = [], nowConnected = True, batteryService = False,
      batteryChar = None, buttonService = False, buttonChar = None, canNotify = False,
      descriptor2902 = False, subscribe = False\<rparr>"

definition reply_dropped :: connect_reply where
  "reply_dropped =
     \<lparr>res = False, delivered = [Connected, Disconnected], nowConnected = False,
      batteryService = False, batteryChar = None, buttonService = False, buttonChar = None,
      canNotify = False, descriptor2902 = False, subscribe = False\<rparr>"

definition tag0_advertised :: sys where
  "tag0_advertised = run [Advertisement ''ff:ff:11:11:a2:fa''] (setup_sketch boot)"

definition tag0_connected :: sys where
  "tag0_connected = run [Pass 1000 3000 (\<lambda>i. reply_ok)] tag0_advertised"

definition tag0_lost :: sys where
  "tag0_lost = run [ConnectionLost 0] tag0_connected"

definition tag0_back :: sys where
  "tag0_back = run [Advertisement ''ff:ff:11:11:a2:fa''] tag0_lost"

section \<open>Properties\<close>

subsection \<open>Evaluation of the samples\<close>

lemmas sketch_defs =
  run_def setup_sketch_def boot_def say_def beep_def handle_beeptimer_def onResult_def
  onResult_body_def NITAGS_def loop_def loop_trials_def loop_restart_def loop_body_def
  connectToServer_def client_connect_def onConnect_def onDisconnect_def NOTIFY_def
  scanEndedCB_def notifyCallback_def

lemmas reply_defs =
  reply_ok_def reply_fail_def reply_silent_def reply_mute_def reply_refused_def reply_dropped_def

lemma tag0_advertised_eq:
  "tag0_advertised =
     \<lparr>Itag =
        [\<lparr>ItagAddress = ''ff:ff:11:11:a2:fa'', pRemChar = None, advertized = True, oldmillis = 0\<rparr>,
         \<lparr>ItagAddress = ''ff:ff:22:21:ab:11'', pRemChar = None, advertized = False, oldmillis = 0\<rparr>,
         \<lparr>ItagAddress = ''ff:ff:77:70:4b:f0'', pRemChar = None, advertized = False, oldmillis = 0\<rparr>],
      restartscan = False, beeptimer = 0, newcontime = 0, buzzer = 0, led = False,
      serial = [Blank, StartItagFinder, Found ''ff:ff:11:11:a2:fa''],
      radio = [ScanStart 0], isConnected = (\<lambda>i. False)\<rparr>"
  by (simp add: tag0_advertised_def sketch_defs)

lemma tag0_connected_eq:
  "tag0_connected =
     \<lparr>Itag =
        [\<lparr>ItagAddress = ''ff:ff:11:11:a2:fa'', pRemChar = Some 7, advertized = True, oldmillis = 0\<rparr>,
         \<lparr>ItagAddress = ''ff:ff:22:21:ab:11'', pRemChar = None, advertized = False, oldmillis = 0\<rparr>,
         \<lparr>ItagAddress = ''ff:ff:77:70:4b:f0'', pRemChar = None, advertized = False, oldmillis = 0\<rparr>],
      restartscan = False, beeptimer = 900, newcontime = 8000, buzzer = 10, led = True,
      serial =
        [Blank, StartItagFinder, Found ''ff:ff:11:11:a2:fa'', TryConnect 0 ''ff:ff:11:11:a2:fa'',
         ConnectedTo ''ff:ff:11:11:a2:fa'', BatteryIs 87, FoundButtonService, ServiceCanNotify,
         Descriptor2902Missing, NotificationCallbackSet],
      radio =
        [ScanStart 0, ClientConnect ''ff:ff:11:11:a2:fa'', ScanStop, ScanClearResults, ScanStart 0],
      isConnected = (\<lambda>i. i = 0)\<rparr>"
  by (simp add: tag0_connected_def tag0_advertised_eq reply_ok_def sketch_defs fun_eq_iff)

lemma tag0_lost_eq:
  "tag0_lost =
     \<lparr>Itag =
        [\<lparr>ItagAddress = ''ff:ff:11:11:a2:fa'', pRemChar = Some 7, advertized = False, oldmillis = 0\<rparr>,
         \<lparr>ItagAddress = ''ff:ff:22:21:ab:11'', pRemChar = None, advertized = False, oldmillis = 0\<rparr>,
         \<lparr>ItagAddress = ''ff:ff:77:70:4b:f0'', pRemChar = None, advertized = False, oldmillis = 0\<rparr>],
      restartscan = True, beeptimer = 900, newcontime = 8000, buzzer = 10, led = True,
      serial =
        [Blank, StartItagFinder, Found ''ff:ff:11:11:a2:fa'', TryConnect 0 ''ff:ff:11:11:a2:fa'',
         ConnectedTo ''ff:ff:11:11:a2:fa'', BatteryIs 87, FoundButtonService, ServiceCanNotify,
         Descriptor2902Missing, NotificationCallbackSet, DisconnectedFrom ''ff:ff:11:11:a2:fa''],
      radio =
        [ScanStart 0, ClientConnect ''ff:ff:11:11:a2:fa'', ScanStop, ScanClearResults, ScanStart 0],
      isConnected = (\<lambda>i. False)\<rparr>"
  by (simp add: tag0_lost_def tag0_connected_eq sketch_defs fun_eq_iff)

lemma tag0_back_eq:
  "tag0_back = tag0_lost
     \<lparr>Itag :=
        [\<lparr>ItagAddress = ''ff:ff:11:11:a2:fa'', pRemChar = Some 7, advertized = True, oldmillis = 0\<rparr>,
         \<lparr>ItagAddress = ''ff:ff:22:21:ab:11'', pRemChar = None, advertized = False, oldmillis = 0\<rparr>,
         \<lparr>ItagAddress = ''ff:ff:77:70:4b:f0'', pRemChar = None, advertized = False, oldmillis = 0\<rparr>],
      serial := serial tag0_lost @ [Found ''ff:ff:11:11:a2:fa'']\<rparr>"
  by (simp add: tag0_back_def tag0_lost_eq sketch_defs)

subsection \<open>The notification callback\<close>

lemma upt_split: "i < n \<Longrightarrow> [0..<n] = [0..<i] @ i # [Suc i..<n]"
  using upt_add_eq_append [of 0 i "n - i"] by (simp add: upt_conv_Cons)

lemma notifyCallback_for_skip:
  "\<forall>j\<in>set js. pRemChar (Itag st ! j) \<noteq> p \<Longrightarrow>
   notifyCallback_for p t (js @ ks) st = notifyCallback_for p t ks st"
  by (induction js) auto

lemma notifyCallback_for_itagtest_skip:
  "\<forall>j\<in>set js. pRemChar (Itag st ! j) \<noteq> p \<Longrightarrow>
   notifyCallback_for_itagtest p t (js @ ks) st = notifyCallback_for_itagtest p t ks st"
  by (induction js) auto

lemma notifyCallback_none:
  "\<forall>j<NITAGS st. pRemChar (Itag st ! j) \<noteq> p \<Longrightarrow> notifyCallback p t st = st"
  using notifyCallback_for_skip [of "[0..<NITAGS st]" st p t "[]"]
  by (simp add: notifyCallback_def)

lemma notifyCallback_itagtest_none:
  "\<forall>j<NITAGS st. pRemChar (Itag st ! j) \<noteq> p \<Longrightarrow> notifyCallback_itagtest p t st = st"
  using notifyCallback_for_itagtest_skip [of "[0..<NITAGS st]" st p t "[]"]
  by (simp add: notifyCallback_itagtest_def)

text \<open>The effect of a notification whose characteristic is that of tag \<open>i\<close> and of no
  tag before it in the table.\<close>

lemma notifyCallback_first:
  assumes "i < NITAGS st" "pRemChar (Itag st ! i) = p" "\<forall>j<i. pRemChar (Itag st ! j) \<noteq> p"
  shows "notifyCallback p t st =
     (if oldmillis (Itag st ! i) + 500 < t then
        beep 500 (say (NotifyFrom i) (st\<lparr>Itag := (Itag st)[i := (Itag st ! i)\<lparr>oldmillis := t\<rparr>]\<rparr>))
      else st)"
proof -
  have "notifyCallback p t st = notifyCallback_for p t ([0..<i] @ i # [Suc i..<NITAGS st]) st"
    using assms(1) by (simp add: notifyCallback_def upt_split [symmetric])
  also have "\<dots> = notifyCallback_for p t (i # [Suc i..<NITAGS st]) st"
    using assms(3) by (intro notifyCallback_for_skip) simp
  finally show ?thesis using assms(2) by simp
qed

lemma notifyCallback_itagtest_first:
  assumes "i < NITAGS st" "pRemChar (Itag st ! i) = p" "\<forall>j<i. pRemChar (Itag st ! j) \<noteq> p"
  shows "notifyCallback_itagtest p t st =
     (if oldmillis (Itag st ! i) + 500 < t then
        say (NotifyFrom i) (st\<lparr>Itag := (Itag st)[i := (Itag st ! i)\<lparr>oldmillis := t\<rparr>]\<rparr>)
      else st)"
proof -
  have "notifyCallback_itagtest p t st =
      notifyCallback_for_itagtest p t ([0..<i] @ i # [Suc i..<NITAGS st]) st"
    using assms(1) by (simp add: notifyCallback_itagtest_def upt_split [symmetric])
  also have "\<dots> = notifyCallback_for_itagtest p t (i # [Suc i..<NITAGS st]) st"
    using assms(3) by (intro notifyCallback_for_itagtest_skip) simp
  finally show ?thesis using assms(2) by simp
qed

lemma say_neq: "serial st' = serial st \<Longrightarrow> say m st' \<noteq> st"
  by (auto simp: say_def dest: arg_cong [where f = serial])

lemma beep_say_neq: "serial st' = serial st \<Longrightarrow> beep d (say m st') \<noteq> st"
  by (auto simp: say_def beep_def dest: arg_cong [where f = serial])

lemma debounce_unat:
  fixes t old :: "32 word"
  shows "old + 500 < t \<longleftrightarrow> (unat old + 500) mod 2 ^ 32 < unat t"
  by (simp add: word_less_nat_alt unat_word_ariths)

lemma debounce_nowrap:
  fixes t :: "32 word"
  assumes "unat t + 500 < 2 ^ 32" "unat t + d < 2 ^ 32"
  shows "t + 500 < t + of_nat d \<longleftrightarrow> 500 < d"
proof -
  have "unat (of_nat d :: 32 word) = d"
    using assms(2) by (simp add: unat_of_nat)
  then have "unat (t + of_nat d) = unat t + d"
    using assms(2) by (simp add: unat_word_ariths)
  moreover have "unat (t + 500) = unat t + 500"
    using assms(1) by (simp add: unat_word_ariths)
  ultimately show ?thesis by (simp add: word_less_nat_alt)
qed

text \<open>
  C9. A notification whose characteristic is the \<open>pRemChar\<close> of no tag leaves the whole
  state as it is, in both sketches. A notification whose characteristic is that of tag
  \<open>i\<close> (the first such tag of the table) changes no tag but \<open>i\<close>, and of tag \<open>i\<close> nothing
  but \<open>oldmillis\<close>, which becomes the time of the notification if the debounce test
  passes and stays otherwise.
\<close>

theorem notification_frame:
  "((\<forall>j<NITAGS st. pRemChar (Itag st ! j) \<noteq> p) \<longrightarrow>
      notifyCallback p t st = st \<and> notifyCallback_itagtest p t st = st) \<and>
   (\<forall>i<NITAGS st. pRemChar (Itag st ! i) = p \<and> (\<forall>j<i. pRemChar (Itag st ! j) \<noteq> p) \<longrightarrow>
      Itag (notifyCallback p t st) =
        (Itag st)[i := (Itag st ! i)
           \<lparr>oldmillis := if oldmillis (Itag st ! i) + 500 < t then t else oldmillis (Itag st ! i)\<rparr>] \<and>
      Itag (notifyCallback_itagtest p t st) = Itag (notifyCallback p t st))"
proof (intro conjI impI allI)
  assume "\<forall>j<NITAGS st. pRemChar (Itag st ! j) \<noteq> p"
  then show "notifyCallback p t st = st" "notifyCallback_itagtest p t st = st"
    by (rule notifyCallback_none, rule notifyCallback_itagtest_none)
next
  fix i
  assume i: "i < NITAGS st"
    and m: "pRemChar (Itag st ! i) = p \<and> (\<forall>j<i. pRemChar (Itag st ! j) \<noteq> p)"
  have a: "notifyCallback p t st =
     (if oldmillis (Itag st ! i) + 500 < t then
        beep 500 (say (NotifyFrom i) (st\<lparr>Itag := (Itag st)[i := (Itag st ! i)\<lparr>oldmillis := t\<rparr>]\<rparr>))
      else st)"
    using i m by (intro notifyCallback_first) auto
  have b: "notifyCallback_itagtest p t st =
     (if oldmillis (Itag st ! i) + 500 < t then
        say (NotifyFrom i) (st\<lparr>Itag := (Itag st)[i := (Itag st ! i)\<lparr>oldmillis := t\<rparr>]\<rparr>)
      else st)"
    using i m by (intro notifyCallback_itagtest_first) auto
  show "Itag (notifyCallback p t st) =
        (Itag st)[i := (Itag st ! i)
           \<lparr>oldmillis := if oldmillis (Itag st ! i) + 500 < t then t else oldmillis (Itag st ! i)\<rparr>]"
    by (simp add: a beep_def say_def)
  show "Itag (notifyCallback_itagtest p t st) = Itag (notifyCallback p t st)"
    by (simp add: a b beep_def say_def)
qed

theorem notification_frame_witness:
  "notifyCallback (Some 9) 9000 tag0_connected = tag0_connected \<and>
   notifyCallback_itagtest (Some 9) 9000 tag0_connected = tag0_connected \<and>
   Itag (notifyCallback (Some 7) 9000 tag0_connected) =
     [\<lparr>ItagAddress = ''ff:ff:11:11:a2:fa'', pRemChar = Some 7, advertized = True, oldmillis = 9000\<rparr>,
      \<lparr>ItagAddress = ''ff:ff:22:21:ab:11'', pRemChar = None, advertized = False, oldmillis = 0\<rparr>,
      \<lparr>ItagAddress = ''ff:ff:77:70:4b:f0'', pRemChar = None, advertized = False, oldmillis = 0\<rparr>] \<and>
   Itag (notifyCallback_itagtest (Some 7) 9000 tag0_connected) =
     Itag (notifyCallback (Some 7) 9000 tag0_connected)"
proof -
  have none: "\<forall>j<NITAGS tag0_connected. pRemChar (Itag tag0_connected ! j) \<noteq> Some 9"
    by (simp add: tag0_connected_eq NITAGS_def less_Suc_eq numeral_3_eq_3)
  have first: "0 < NITAGS tag0_connected \<and> pRemChar (Itag tag0_connected ! 0) = Some 7 \<and>
      (\<forall>j<0::nat. pRemChar (Itag tag0_connected ! j) \<noteq> Some 7)"
    by (simp add: tag0_connected_eq NITAGS_def)
  from notification_frame [of tag0_connected "Some 9" 9000] none
  have 1: "notifyCallback (Some 9) 9000 tag0_connected = tag0_connected \<and>
      notifyCallback_itagtest (Some 9) 9000 tag0_connected = tag0_connected"
    by blast
  from notification_frame [of tag0_connected "Some 7" 9000] first
  have 2: "Itag (notifyCallback (Some 7) 9000 tag0_connected) =
        (Itag tag0_connected)[0 := (Itag tag0_connected ! 0)
           \<lparr>oldmillis := if oldmillis (Itag tag0_connected ! 0) + 500 < 9000 then 9000
              else oldmillis (Itag tag0_connected ! 0)\<rparr>] \<and>
      Itag (notifyCallback_itagtest (Some 7) 9000 tag0_connected) =
        Itag (notifyCallback (Some 7) 9000 tag0_connected)"
    by blast
  from 2 have 3: "Itag (notifyCallback (Some 7) 9000 tag0_connected) =
     [\<lparr>ItagAddress = ''ff:ff:11:11:a2:fa'', pRemChar = Some 7, advertized = True, oldmillis = 9000\<rparr>,
      \<lparr>ItagAddress = ''ff:ff:22:21:ab:11'', pRemChar = None, advertized = False, oldmillis = 0\<rparr>,
      \<lparr>ItagAddress = ''ff:ff:77:70:4b:f0'', pRemChar = None, advertized = False, oldmillis = 0\<rparr>]"
    by (simp add: tag0_connected_eq)
  from 1 2 3 show ?thesis by simp
qed

text \<open>The state after an accepted notification of tag \<open>i\<close>, in ITAGFINDER and in ITAGTEST.\<close>

lemma accepted_state:
  fixes t :: "32 word"
  assumes "i < NITAGS st"
  defines "st' \<equiv> beep 500 (say (NotifyFrom i) (st\<lparr>Itag := (Itag st)[i := (Itag st ! i)\<lparr>oldmillis := t\<rparr>]\<rparr>))"
  shows "NITAGS st' = NITAGS st" "oldmillis (Itag st' ! i) = t"
    "pRemChar (Itag st' ! j) = pRemChar (Itag st ! j)"
  using assms(1) by (simp_all add: st'_def beep_def say_def NITAGS_def nth_list_update)

lemma accepted_state_itagtest:
  fixes t :: "32 word"
  assumes "i < NITAGS st"
  defines "st' \<equiv> say (NotifyFrom i) (st\<lparr>Itag := (Itag st)[i := (Itag st ! i)\<lparr>oldmillis := t\<rparr>]\<rparr>)"
  shows "NITAGS st' = NITAGS st" "oldmillis (Itag st' ! i) = t"
    "pRemChar (Itag st' ! j) = pRemChar (Itag st ! j)"
  using assms(1) by (simp_all add: st'_def say_def NITAGS_def nth_list_update)

text \<open>
  C1, as amended. Let the characteristic \<open>p\<close> be that of tag \<open>i\<close> (the first such tag), let
  a notification at time \<open>t\<close> be accepted, and let neither \<open>t + 500\<close> nor \<open>t + d\<close> pass
  \<open>2^32 - 1\<close>. Then the next notification of the tag, at \<open>t + d\<close>, is accepted (logged,
  short beep, \<open>oldmillis\<close> set to \<open>t + d\<close>) if \<open>d > 500\<close> and changes nothing otherwise;
  after the first one \<open>oldmillis\<close> is \<open>t\<close>. The same holds in ITAGTEST, without the beep.
\<close>

theorem debounce_two_notifications:
  assumes "i < NITAGS st" "pRemChar (Itag st ! i) = p" "\<forall>j<i. pRemChar (Itag st ! j) \<noteq> p"
    and "oldmillis (Itag st ! i) + 500 < t"
    and "unat t + 500 < 2 ^ 32" "unat t + d < 2 ^ 32"
  defines "st1 \<equiv> notifyCallback p t st"
    and "st1' \<equiv> notifyCallback_itagtest p t st"
  shows "oldmillis (Itag st1 ! i) = t \<and>
     (notifyCallback p (t + of_nat d) st1 \<noteq> st1 \<longleftrightarrow> 500 < d) \<and>
     notifyCallback p (t + of_nat d) st1 =
       (if 500 < d then
          beep 500 (say (NotifyFrom i)
            (st1\<lparr>Itag := (Itag st1)[i := (Itag st1 ! i)\<lparr>oldmillis := t + of_nat d\<rparr>]\<rparr>))
        else st1) \<and>
     oldmillis (Itag st1' ! i) = t \<and>
     (notifyCallback_itagtest p (t + of_nat d) st1' \<noteq> st1' \<longleftrightarrow> 500 < d) \<and>
     notifyCallback_itagtest p (t + of_nat d) st1' =
       (if 500 < d then
          say (NotifyFrom i)
            (st1'\<lparr>Itag := (Itag st1')[i := (Itag st1' ! i)\<lparr>oldmillis := t + of_nat d\<rparr>]\<rparr>)
        else st1')"
proof -
  have cmp: "t + 500 < t + of_nat d \<longleftrightarrow> 500 < d"
    using assms(5,6) by (rule debounce_nowrap)
  have st1: "st1 = beep 500 (say (NotifyFrom i)
      (st\<lparr>Itag := (Itag st)[i := (Itag st ! i)\<lparr>oldmillis := t\<rparr>]\<rparr>))"
    unfolding st1_def using assms(1-4) by (simp add: notifyCallback_first)
  have f1: "i < NITAGS st1" "oldmillis (Itag st1 ! i) = t" "pRemChar (Itag st1 ! i) = p"
    "\<forall>j<i. pRemChar (Itag st1 ! j) \<noteq> p"
    using assms(1-3) accepted_state [of i st t] by (simp_all add: st1)
  have e1: "notifyCallback p (t + of_nat d) st1 =
       (if 500 < d then
          beep 500 (say (NotifyFrom i)
            (st1\<lparr>Itag := (Itag st1)[i := (Itag st1 ! i)\<lparr>oldmillis := t + of_nat d\<rparr>]\<rparr>))
        else st1)"
    using notifyCallback_first [OF f1(1,3,4), of "t + of_nat d"] by (simp add: f1(2) cmp)
  have n1: "notifyCallback p (t + of_nat d) st1 \<noteq> st1 \<longleftrightarrow> 500 < d"
    by (simp add: e1 beep_say_neq)
  have st1': "st1' = say (NotifyFrom i)
      (st\<lparr>Itag := (Itag st)[i := (Itag st ! i)\<lparr>oldmillis := t\<rparr>]\<rparr>)"
    unfolding st1'_def using assms(1-4) by (simp add: notifyCallback_itagtest_first)
  have f2: "i < NITAGS st1'" "oldmillis (Itag st1' ! i) = t" "pRemChar (Itag st1' ! i) = p"
    "\<forall>j<i. pRemChar (Itag st1' ! j) \<noteq> p"
    using assms(1-3) accepted_state_itagtest [of i st t] by (simp_all add: st1')
  have e2: "notifyCallback_itagtest p (t + of_nat d) st1' =
       (if 500 < d then
          say (NotifyFrom i)
            (st1'\<lparr>Itag := (Itag st1')[i := (Itag st1' ! i)\<lparr>oldmillis := t + of_nat d\<rparr>]\<rparr>)
        else st1')"
    using notifyCallback_itagtest_first [OF f2(1,3,4), of "t + of_nat d"] by (simp add: f2(2) cmp)
  have n2: "notifyCallback_itagtest p (t + of_nat d) st1' \<noteq> st1' \<longleftrightarrow> 500 < d"
    by (simp add: e2 say_neq)
  show ?thesis using f1(2) n1 e1 f2(2) n2 e2 by blast
qed


theorem debounce_two_notifications_witness:
  "0 < NITAGS tag0_connected \<and> pRemChar (Itag tag0_connected ! 0) = Some 7 \<and>
   oldmillis (Itag tag0_connected ! 0) + 500 < (9000 :: 32 word) \<and>
   unat (9000 :: 32 word) + 500 < 2 ^ 32 \<and> unat (9000 :: 32 word) + 600 < 2 ^ 32 \<and>
   oldmillis (Itag (notifyCallback (Some 7) 9000 tag0_connected) ! 0) = 9000 \<and>
   notifyCallback (Some 7) (9000 + of_nat 200) (notifyCallback (Some 7) 9000 tag0_connected) =
     notifyCallback (Some 7) 9000 tag0_connected \<and>
   notifyCallback (Some 7) (9000 + of_nat 600) (notifyCallback (Some 7) 9000 tag0_connected) \<noteq>
     notifyCallback (Some 7) 9000 tag0_connected"
proof -
  have h: "0 < NITAGS tag0_connected" "pRemChar (Itag tag0_connected ! 0) = Some 7"
    "\<forall>j<0::nat. pRemChar (Itag tag0_connected ! j) \<noteq> Some 7"
    "oldmillis (Itag tag0_connected ! 0) + 500 < (9000 :: 32 word)"
    "unat (9000 :: 32 word) + 500 < 2 ^ 32"
    by (simp_all add: tag0_connected_eq NITAGS_def)
  have d: "unat (9000 :: 32 word) + 200 < 2 ^ 32" "unat (9000 :: 32 word) + 600 < 2 ^ 32"
    by simp_all
  from debounce_two_notifications [OF h d(1)]
  have 1: "oldmillis (Itag (notifyCallback (Some 7) 9000 tag0_connected) ! 0) = 9000"
    "notifyCallback (Some 7) (9000 + of_nat 200) (notifyCallback (Some 7) 9000 tag0_connected) =
       notifyCallback (Some 7) 9000 tag0_connected"
    by simp_all
  from debounce_two_notifications [OF h d(2)]
  have "notifyCallback (Some 7) (9000 + of_nat 600) (notifyCallback (Some 7) 9000 tag0_connected) \<noteq>
       notifyCallback (Some 7) 9000 tag0_connected \<longleftrightarrow> (500 :: nat) < 600"
    by blast
  then have 2:
    "notifyCallback (Some 7) (9000 + of_nat 600) (notifyCallback (Some 7) 9000 tag0_connected) \<noteq>
       notifyCallback (Some 7) 9000 tag0_connected"
    by simp
  show ?thesis using h d 1 2 by blast
qed

text \<open>
  C1 as stated fails on two inputs. Near the wrap of the clock: the notification at
  \<open>4294967000\<close> is accepted, and so is the one \<open>100\<close> ms later, because
  \<open>4294967000 + 500\<close> is \<open>204\<close> in \<^verbatim>\<open>uint32_t\<close>. Right after boot: the notification at
  \<open>100\<close> is discarded (\<open>oldmillis\<close> is still \<open>0\<close>), and the one \<open>450\<close> ms later, at \<open>550\<close>,
  is accepted.
\<close>

theorem debounce_counterexample:
  "oldmillis (Itag (notifyCallback (Some 7) 4294967000 tag0_connected) ! 0) = 4294967000 \<and>
   oldmillis (Itag (notifyCallback (Some 7) (4294967000 + 100)
     (notifyCallback (Some 7) 4294967000 tag0_connected)) ! 0) = 4294967100 \<and>
   notifyCallback (Some 7) 100 tag0_connected = tag0_connected \<and>
   oldmillis (Itag (notifyCallback (Some 7) (100 + 450)
     (notifyCallback (Some 7) 100 tag0_connected)) ! 0) = 550"
  by (simp add: tag0_connected_eq notifyCallback_def NITAGS_def beep_def say_def)

lemma wrapped_less: "a \<le> n + b \<Longrightarrow> b < a \<Longrightarrow> n + b - a < (n :: nat)"
  by arith

text \<open>
  C10. The debounce test is the comparison \<open>newmillis > oldmillis + 500\<close> of
  \<^verbatim>\<open>uint32_t\<close>: a notification of tag \<open>i\<close> is accepted exactly when
  \<open>(oldmillis + 500) mod 2^32 < newmillis\<close>. Every \<open>oldmillis\<close> of the table starts at
  \<open>0\<close>. Hence a notification at a time up to \<open>500\<close> is discarded while \<open>oldmillis\<close> is still
  \<open>0\<close>, and once \<open>oldmillis + 500\<close> overflows every notification at a time from
  \<open>oldmillis\<close> on is accepted, however soon it follows. Both sketches agree.
\<close>

theorem debounce_uint32:
  assumes "i < NITAGS st" "pRemChar (Itag st ! i) = p" "\<forall>j<i. pRemChar (Itag st ! j) \<noteq> p"
  defines "old \<equiv> oldmillis (Itag st ! i)"
  shows "(notifyCallback p now st \<noteq> st \<longleftrightarrow> (unat old + 500) mod 2 ^ 32 < unat now) \<and>
     (notifyCallback_itagtest p now st \<noteq> st \<longleftrightarrow> (unat old + 500) mod 2 ^ 32 < unat now) \<and>
     map oldmillis (Itag boot) = [0, 0, 0] \<and>
     (old = 0 \<and> now \<le> 500 \<longrightarrow>
        notifyCallback p now st = st \<and> notifyCallback_itagtest p now st = st) \<and>
     (2 ^ 32 \<le> unat old + 500 \<and> old \<le> now \<longrightarrow>
        notifyCallback p now st \<noteq> st \<and> notifyCallback_itagtest p now st \<noteq> st)"
proof -
  have a: "notifyCallback p now st \<noteq> st \<longleftrightarrow> (unat old + 500) mod 2 ^ 32 < unat now"
    using notifyCallback_first [OF assms(1-3), of now]
    by (simp add: beep_say_neq debounce_unat old_def)
  have b: "notifyCallback_itagtest p now st \<noteq> st \<longleftrightarrow> (unat old + 500) mod 2 ^ 32 < unat now"
    using notifyCallback_itagtest_first [OF assms(1-3), of now]
    by (simp add: say_neq debounce_unat old_def)
  have c: "map oldmillis (Itag boot) = [0, 0, 0]"
    by (simp add: boot_def)
  have d: "\<not> (unat old + 500) mod 2 ^ 32 < unat now" if "old = 0 \<and> now \<le> 500"
  proof -
    have "unat now \<le> unat (500 :: 32 word)"
      using that by (simp add: word_le_nat_alt)
    then show ?thesis using that by simp
  qed
  have e: "(unat old + 500) mod 2 ^ 32 < unat now" if "2 ^ 32 \<le> unat old + 500 \<and> old \<le> now"
  proof -
    have lt: "unat old < 2 ^ 32"
      using unsigned_less [of old, where 'a = nat] by simp
    have le: "unat old \<le> unat now"
      using that by (simp add: word_le_nat_alt)
    have "(unat old + 500) mod 2 ^ 32 = unat old + 500 - 2 ^ 32"
      using that lt by (simp add: mod_if)
    also have "\<dots> < unat old"
      using that by (intro wrapped_less) simp_all
    finally show ?thesis using le by (rule less_le_trans)
  qed
  show ?thesis using a b c d e by blast
qed

theorem debounce_uint32_witness:
  "0 < NITAGS tag0_connected \<and> pRemChar (Itag tag0_connected ! 0) = Some 7 \<and>
   oldmillis (Itag tag0_connected ! 0) = 0 \<and> (300 :: 32 word) \<le> 500 \<and>
   notifyCallback (Some 7) 300 tag0_connected = tag0_connected \<and>
   notifyCallback_itagtest (Some 7) 300 tag0_connected = tag0_connected \<and>
   (2 :: nat) ^ 32 \<le>
     unat (oldmillis (Itag (notifyCallback (Some 7) 4294967000 tag0_connected) ! 0)) + 500 \<and>
   notifyCallback (Some 7) 4294967001 (notifyCallback (Some 7) 4294967000 tag0_connected) \<noteq>
     notifyCallback (Some 7) 4294967000 tag0_connected"
proof -
  have h: "0 < NITAGS tag0_connected" "pRemChar (Itag tag0_connected ! 0) = Some 7"
    "\<forall>j<0::nat. pRemChar (Itag tag0_connected ! j) \<noteq> Some 7"
    by (simp_all add: tag0_connected_eq NITAGS_def)
  have z: "oldmillis (Itag tag0_connected ! 0) = 0" "(300 :: 32 word) \<le> 500"
    by (simp_all add: tag0_connected_eq)
  define st where "st = notifyCallback (Some 7) 4294967000 tag0_connected"
  have g: "0 < NITAGS st" "pRemChar (Itag st ! 0) = Some 7"
    "\<forall>j<0::nat. pRemChar (Itag st ! j) \<noteq> Some 7"
    by (simp_all add: st_def tag0_connected_eq notifyCallback_def NITAGS_def beep_def say_def)
  have o: "oldmillis (Itag st ! 0) = 4294967000"
    by (simp add: st_def tag0_connected_eq notifyCallback_def NITAGS_def beep_def say_def)
  have w: "(2 :: nat) ^ 32 \<le> unat (oldmillis (Itag st ! 0)) + 500"
    "oldmillis (Itag st ! 0) \<le> 4294967001"
    by (simp_all add: o)
  from debounce_uint32 [OF h, of 300] z
  have 1: "notifyCallback (Some 7) 300 tag0_connected = tag0_connected \<and>
      notifyCallback_itagtest (Some 7) 300 tag0_connected = tag0_connected"
    by blast
  from debounce_uint32 [OF g, of 4294967001] w
  have 2: "notifyCallback (Some 7) 4294967001 st \<noteq> st"
    by blast
  show ?thesis using h z 1 2 w by (simp add: st_def)
qed

subsection \<open>The client callbacks\<close>

lemma onDisconnect_for_skip:
  "\<forall>j\<in>set js. ItagAddress (Itag st ! j) \<noteq> m \<Longrightarrow>
   onDisconnect_for m (js @ ks) st = onDisconnect_for m ks st"
  by (induction js) auto

lemma onDisconnect_none:
  assumes "\<forall>j<NITAGS st. ItagAddress (Itag st ! j) \<noteq> m"
  shows "onDisconnect m st = (say (DisconnectedFrom m) st)\<lparr>restartscan := True\<rparr>"
  using assms onDisconnect_for_skip [of "[0..<NITAGS st]" "say (DisconnectedFrom m) st" m "[]"]
  by (simp add: onDisconnect_def say_def NITAGS_def)

lemma onDisconnect_first:
  assumes "i < NITAGS st" "ItagAddress (Itag st ! i) = m"
    "\<forall>j<i. ItagAddress (Itag st ! j) \<noteq> m"
  shows "onDisconnect m st =
     (say (DisconnectedFrom m) st)
       \<lparr>Itag := (Itag st)[i := (Itag st ! i)\<lparr>advertized := False\<rparr>], restartscan := True\<rparr>"
proof -
  define st1 where "st1 = say (DisconnectedFrom m) st"
  have tags: "Itag st1 = Itag st" "NITAGS st1 = NITAGS st"
    by (simp_all add: st1_def say_def NITAGS_def)
  have "onDisconnect_for m [0..<NITAGS st1] st1 =
      onDisconnect_for m ([0..<i] @ i # [Suc i..<NITAGS st]) st1"
    using assms(1) by (simp add: tags upt_split [symmetric])
  also have "\<dots> = onDisconnect_for m (i # [Suc i..<NITAGS st]) st1"
    using assms(3) by (intro onDisconnect_for_skip) (simp add: tags)
  also have "\<dots> = st1\<lparr>Itag := (Itag st)[i := (Itag st ! i)\<lparr>advertized := False\<rparr>]\<rparr>"
    using assms(2) by (simp add: tags)
  finally show ?thesis
    by (simp add: onDisconnect_def Let_def st1_def [symmetric])
qed

text \<open>
  C2, as amended. When the client of tag \<open>i\<close> is disconnected (\<^verbatim>\<open>onDisconnect\<close> runs with
  the address of tag \<open>i\<close>, which no earlier tag of the table has), the flag \<open>advertized\<close>
  of tag \<open>i\<close> is set to false and a restart of the scan is requested. Nothing else of the
  table changes: \<open>pRemChar\<close> of tag \<open>i\<close> keeps its value.
\<close>

theorem disconnect_clears_advertized:
  assumes "i < NITAGS st" "ItagAddress (Itag st ! i) = macstr"
    "\<forall>j<i. ItagAddress (Itag st ! j) \<noteq> macstr"
  shows "Itag (onDisconnect macstr st) = (Itag st)[i := (Itag st ! i)\<lparr>advertized := False\<rparr>] \<and>
     \<not> advertized (Itag (onDisconnect macstr st) ! i) \<and>
     pRemChar (Itag (onDisconnect macstr st) ! i) = pRemChar (Itag st ! i) \<and>
     restartscan (onDisconnect macstr st)"
  using assms(1) by (simp add: onDisconnect_first [OF assms] say_def NITAGS_def)

theorem disconnect_clears_advertized_witness:
  "0 < NITAGS tag0_connected \<and>
   ItagAddress (Itag tag0_connected ! 0) = ''ff:ff:11:11:a2:fa'' \<and>
   advertized (Itag tag0_connected ! 0) \<and>
   \<not> advertized (Itag (onDisconnect ''ff:ff:11:11:a2:fa'' tag0_connected) ! 0) \<and>
   restartscan (onDisconnect ''ff:ff:11:11:a2:fa'' tag0_connected)"
proof -
  have h: "0 < NITAGS tag0_connected"
    "ItagAddress (Itag tag0_connected ! 0) = ''ff:ff:11:11:a2:fa''"
    "\<forall>j<0::nat. ItagAddress (Itag tag0_connected ! j) \<noteq> ''ff:ff:11:11:a2:fa''"
    by (simp_all add: tag0_connected_eq NITAGS_def)
  have a: "advertized (Itag tag0_connected ! 0)"
    by (simp add: tag0_connected_eq)
  show ?thesis using disconnect_clears_advertized [OF h] h a by blast
qed

text \<open>
  C2 as stated fails: after the disconnect of the connected first tag, its \<open>pRemChar\<close>
  still holds the characteristic bound by the connection that is gone.
\<close>

theorem disconnect_keeps_pRemChar_counterexample:
  "isConnected tag0_connected 0 \<and> pRemChar (Itag tag0_connected ! 0) = Some 7 \<and>
   pRemChar (Itag (onDisconnect ''ff:ff:11:11:a2:fa'' tag0_connected) ! 0) = Some 7 \<and>
   \<not> isConnected (step (ConnectionLost 0) tag0_connected) 0 \<and>
   pRemChar (Itag (step (ConnectionLost 0) tag0_connected) ! 0) = Some 7"
  by (simp add: tag0_connected_eq onDisconnect_def say_def NITAGS_def)

subsection \<open>The radio\<close>

lemma radio_say [simp]: "radio (say m st) = radio st"
  by (simp add: say_def)

lemma radio_beep [simp]: "radio (beep d st) = radio st"
  by (simp add: beep_def)

lemma radio_handle_beeptimer [simp]: "radio (handle_beeptimer st) = radio st"
  by (simp add: handle_beeptimer_def Let_def)

lemma radio_onResult_body [simp]: "radio (onResult_body p i st) = radio st"
  by (simp add: onResult_body_def)

lemma radio_fold_onResult_body: "radio (fold (onResult_body p) js st) = radio st"
  by (induction js arbitrary: st) simp_all

lemma radio_onResult [simp]: "radio (onResult p st) = radio st"
  by (simp add: onResult_def radio_fold_onResult_body)

lemma radio_onConnect [simp]: "radio (onConnect m st) = radio st"
  by (simp add: onConnect_def)

lemma radio_onDisconnect_for [simp]: "radio (onDisconnect_for m js st) = radio st"
  by (induction js) simp_all

lemma radio_onDisconnect [simp]: "radio (onDisconnect m st) = radio st"
  by (simp add: onDisconnect_def Let_def)

lemma radio_notifyCallback_for [simp]: "radio (notifyCallback_for p t js st) = radio st"
  by (induction js) simp_all

lemma radio_notifyCallback [simp]: "radio (notifyCallback p t st) = radio st"
  by (simp add: notifyCallback_def)

lemma radio_deliver [simp]: "radio (deliver m c st) = radio st"
  by (cases c) simp_all

lemma radio_fold_deliver [simp]: "radio (fold (deliver m) cs st) = radio st"
  by (induction cs arbitrary: st) simp_all

lemma radio_client_connect:
  "radio (client_connect i r st) = radio st @ [ClientConnect (ItagAddress (Itag st ! i))]"
  by (simp add: client_connect_def)

lemma radio_connectToServer:
  "radio (connectToServer i r st) = radio st @ [ClientConnect (ItagAddress (Itag st ! i))]"
  by (simp add: connectToServer_def Let_def radio_client_connect split: option.split)

lemma radio_loop_body:
  "radio (loop_body rs i st) =
     radio st @ (if advertized (Itag st ! i) \<and> \<not> isConnected st i
                 then [ClientConnect (ItagAddress (Itag st ! i))] else [])"
  by (simp add: loop_body_def Let_def radio_connectToServer say_def)

lemma radio_fold_loop_body:
  "\<exists>cs. radio (fold (loop_body rs) js st) = radio st @ map ClientConnect cs"
proof (induction js arbitrary: st)
  case Nil
  show ?case by (rule exI [of _ "[]"]) simp
next
  case (Cons j js)
  obtain cs where cs: "radio (fold (loop_body rs) js (loop_body rs j st)) =
      radio (loop_body rs j st) @ map ClientConnect cs"
    using Cons.IH by blast
  show ?case
  proof (cases "advertized (Itag st ! j) \<and> \<not> isConnected st j")
    case True
    then show ?thesis
      by (intro exI [of _ "ItagAddress (Itag st ! j) # cs"]) (simp add: cs radio_loop_body)
  next
    case False
    then show ?thesis
      by (intro exI [of _ cs]) (simp add: cs radio_loop_body)
  qed
qed

lemma radio_loop_trials:
  "\<exists>cs. radio (loop_trials now now' rs st) = radio st @ map ClientConnect cs"
proof (cases "newcontime st < now")
  case True
  obtain cs where "radio (fold (loop_body rs) [0..<NITAGS st] (st\<lparr>led := False\<rparr>)) =
      radio (st\<lparr>led := False\<rparr>) @ map ClientConnect cs"
    using radio_fold_loop_body by blast
  then show ?thesis using True by (intro exI [of _ cs]) (simp add: loop_trials_def)
next
  case False
  then show ?thesis by (intro exI [of _ "[]"]) (simp add: loop_trials_def)
qed

subsection \<open>Connecting\<close>

text \<open>What the callbacks run during \<^verbatim>\<open>connect\<close> can change.\<close>

lemma onConnect_fields [simp]:
  "Itag (onConnect m st) = Itag st" "restartscan (onConnect m st)"
  "beeptimer (onConnect m st) = beeptimer st" "newcontime (onConnect m st) = newcontime st"
  "buzzer (onConnect m st) = buzzer st" "led (onConnect m st) = led st"
  "isConnected (onConnect m st) = isConnected st"
  by (simp_all add: onConnect_def say_def)

lemma onDisconnect_for_fields [simp]:
  "length (Itag (onDisconnect_for m js st)) = length (Itag st)"
  "restartscan (onDisconnect_for m js st) = restartscan st"
  "beeptimer (onDisconnect_for m js st) = beeptimer st"
  "newcontime (onDisconnect_for m js st) = newcontime st"
  "buzzer (onDisconnect_for m js st) = buzzer st" "led (onDisconnect_for m js st) = led st"
  "serial (onDisconnect_for m js st) = serial st"
  "isConnected (onDisconnect_for m js st) = isConnected st"
  by (induction js) simp_all

lemma onDisconnect_fields [simp]:
  "length (Itag (onDisconnect m st)) = length (Itag st)" "restartscan (onDisconnect m st)"
  "beeptimer (onDisconnect m st) = beeptimer st" "newcontime (onDisconnect m st) = newcontime st"
  "buzzer (onDisconnect m st) = buzzer st" "led (onDisconnect m st) = led st"
  "isConnected (onDisconnect m st) = isConnected st"
  by (simp_all add: onDisconnect_def Let_def say_def)

lemma deliver_fields [simp]:
  "length (Itag (deliver m c st)) = length (Itag st)" "restartscan (deliver m c st)"
  "beeptimer (deliver m c st) = beeptimer st" "newcontime (deliver m c st) = newcontime st"
  "buzzer (deliver m c st) = buzzer st" "led (deliver m c st) = led st"
  "isConnected (deliver m c st) = isConnected st"
  by (cases c; simp)+

lemma fold_deliver_fields [simp]:
  "length (Itag (fold (deliver m) cs st)) = length (Itag st)"
  "restartscan (fold (deliver m) cs st) \<longleftrightarrow> restartscan st \<or> cs \<noteq> []"
  "beeptimer (fold (deliver m) cs st) = beeptimer st"
  "newcontime (fold (deliver m) cs st) = newcontime st"
  "buzzer (fold (deliver m) cs st) = buzzer st" "led (fold (deliver m) cs st) = led st"
  "isConnected (fold (deliver m) cs st) = isConnected st"
  by (induction cs arbitrary: st; simp del: deliver.simps)+

lemma Itag_fold_deliver:
  "Disconnected \<notin> set cs \<Longrightarrow> Itag (fold (deliver m) cs st) = Itag st"
proof (induction cs arbitrary: st)
  case Nil
  show ?case by simp
next
  case (Cons c cs)
  then have "c = Connected" by (cases c) simp_all
  with Cons show ?case by simp
qed

lemma client_connect_fields [simp]:
  "length (Itag (client_connect i r st)) = length (Itag st)"
  "restartscan (client_connect i r st) \<longleftrightarrow> restartscan st \<or> delivered r \<noteq> []"
  "beeptimer (client_connect i r st) = beeptimer st"
  "newcontime (client_connect i r st) = newcontime st"
  "buzzer (client_connect i r st) = buzzer st" "led (client_connect i r st) = led st"
  "isConnected (client_connect i r st) = (isConnected st)(i := nowConnected r)"
  by (simp_all add: client_connect_def)

lemma Itag_client_connect:
  "Disconnected \<notin> set (delivered r) \<Longrightarrow> Itag (client_connect i r st) = Itag st"
  by (simp add: client_connect_def Itag_fold_deliver)

lemma connectToServer_failed:
  "\<not> nowConnected r \<or> \<not> res r \<Longrightarrow>
   connectToServer i r st = say (NoServerConnection i) (client_connect i r st)"
  by (auto simp: connectToServer_def Let_def)

text \<open>After a connect that succeeded, \<^verbatim>\<open>connectToServer\<close> writes the log and, if the
  button service is there, \<open>pRemChar\<close> of the tag; nothing else.\<close>

lemma connectToServer_connected:
  fixes i :: nat and st :: sys
  assumes "nowConnected r" "res r"
  defines "st1 \<equiv> client_connect i r st"
  shows "\<exists>ms. connectToServer i r st =
     st1\<lparr>Itag := (if buttonService r
                   then (Itag st1)[i := (Itag st1 ! i)\<lparr>pRemChar := buttonChar r\<rparr>]
                   else Itag st1),
         serial := serial st1 @ ms\<rparr>"
proof -
  have c: "isConnected st1 i" using assms(1) by (simp add: st1_def)
  define st2 where "st2 =
     (if \<not> batteryService r then say FailedBatteryService st1
      else (case batteryChar r of Some battperc \<Rightarrow> say (BatteryIs battperc) st1 | None \<Rightarrow> st1))"
  obtain m2 where st2: "st2 = st1\<lparr>serial := serial st1 @ m2\<rparr>"
  proof (cases "batteryService r")
    case False
    then have "st2 = st1\<lparr>serial := serial st1 @ [FailedBatteryService]\<rparr>"
      by (simp add: st2_def say_def)
    then show ?thesis by (rule that)
  next
    case True
    show ?thesis
    proof (cases "batteryChar r")
      case None
      with True have "st2 = st1\<lparr>serial := serial st1 @ []\<rparr>" by (simp add: st2_def)
      then show ?thesis by (rule that)
    next
      case (Some v)
      with True have "st2 = st1\<lparr>serial := serial st1 @ [BatteryIs v]\<rparr>"
        by (simp add: st2_def say_def)
      then show ?thesis by (rule that)
    qed
  qed
  have unfold: "connectToServer i r st =
     (if buttonService r then
        (let st3 = say FoundButtonService st2;
             st4 = st3\<lparr>Itag := (Itag st3)[i := (Itag st3 ! i)\<lparr>pRemChar := buttonChar r\<rparr>]\<rparr>
         in if pRemChar (Itag st4 ! i) \<noteq> None then
              (if canNotify r then
                 (let st5 = say ServiceCanNotify st4;
                      st6 = (if descriptor2902 r then say Descriptor2902Exists st5
                             else say Descriptor2902Missing st5)
                  in if subscribe r then say NotificationCallbackSet st6
                     else say SettingCallbackFailed st6)
               else st4)
            else st4)
      else say ButtonServiceNotFound st2)"
    using c assms(2)
    by (simp add: connectToServer_def st1_def [symmetric] st2_def [symmetric] NOTIFY_def Let_def)
  show ?thesis
  proof (cases "buttonService r")
    case False
    then have "connectToServer i r st =
        st1\<lparr>Itag := Itag st1, serial := serial st1 @ (m2 @ [ButtonServiceNotFound])\<rparr>"
      by (simp add: unfold st2 say_def)
    with False show ?thesis by (intro exI [of _ "m2 @ [ButtonServiceNotFound]"]) simp
  next
    case True
    define ms where "ms =
       (if pRemChar ((Itag st1)[i := (Itag st1 ! i)\<lparr>pRemChar := buttonChar r\<rparr>] ! i) \<noteq> None \<and>
           canNotify r
        then [ServiceCanNotify,
              if descriptor2902 r then Descriptor2902Exists else Descriptor2902Missing,
              if subscribe r then NotificationCallbackSet else SettingCallbackFailed]
        else [])"
    have "connectToServer i r st =
        st1\<lparr>Itag := (Itag st1)[i := (Itag st1 ! i)\<lparr>pRemChar := buttonChar r\<rparr>],
            serial := serial st1 @ (m2 @ FoundButtonService # ms)\<rparr>"
      using True by (simp add: unfold st2 say_def Let_def ms_def)
    with True show ?thesis by (intro exI [of _ "m2 @ FoundButtonService # ms"]) simp
  qed
qed


lemma connectToServer_fields [simp]:
  "length (Itag (connectToServer i r st)) = length (Itag st)"
  "restartscan (connectToServer i r st) \<longleftrightarrow> restartscan st \<or> delivered r \<noteq> []"
  "beeptimer (connectToServer i r st) = beeptimer st"
  "newcontime (connectToServer i r st) = newcontime st"
  "buzzer (connectToServer i r st) = buzzer st" "led (connectToServer i r st) = led st"
  "isConnected (connectToServer i r st) = (isConnected st)(i := nowConnected r)"
proof -
  consider "\<not> nowConnected r \<or> \<not> res r" | "nowConnected r" "res r" by blast
  then have "\<exists>tags ms. connectToServer i r st =
      (client_connect i r st)\<lparr>Itag := tags, serial := ms\<rparr> \<and>
      length tags = length (Itag st)"
  proof cases
    case 1
    then have "connectToServer i r st =
        (client_connect i r st)\<lparr>Itag := Itag (client_connect i r st),
          serial := serial (client_connect i r st) @ [NoServerConnection i]\<rparr>"
      by (simp add: connectToServer_failed say_def)
    then show ?thesis by (metis client_connect_fields(1))
  next
    case 2
    from connectToServer_connected [OF 2, of i st] obtain ms where
      "connectToServer i r st =
         (client_connect i r st)
           \<lparr>Itag := (if buttonService r
                     then (Itag (client_connect i r st))
                       [i := (Itag (client_connect i r st) ! i)\<lparr>pRemChar := buttonChar r\<rparr>]
                     else Itag (client_connect i r st)),
            serial := serial (client_connect i r st) @ ms\<rparr>"
      by blast
    moreover have "length (if buttonService r
                     then (Itag (client_connect i r st))
                       [i := (Itag (client_connect i r st) ! i)\<lparr>pRemChar := buttonChar r\<rparr>]
                     else Itag (client_connect i r st)) = length (Itag st)"
      by simp
    ultimately show ?thesis by blast
  qed
  then obtain tags ms where
    eq: "connectToServer i r st = (client_connect i r st)\<lparr>Itag := tags, serial := ms\<rparr>"
    and len: "length tags = length (Itag st)"
    by blast
  show "length (Itag (connectToServer i r st)) = length (Itag st)"
    "restartscan (connectToServer i r st) \<longleftrightarrow> restartscan st \<or> delivered r \<noteq> []"
    "beeptimer (connectToServer i r st) = beeptimer st"
    "newcontime (connectToServer i r st) = newcontime st"
    "buzzer (connectToServer i r st) = buzzer st" "led (connectToServer i r st) = led st"
    "isConnected (connectToServer i r st) = (isConnected st)(i := nowConnected r)"
    by (simp_all add: eq len)
qed

text \<open>The body of the loop over the tags, when it tries to connect and when it does not.\<close>

lemma loop_body_trial:
  "advertized (Itag st ! i) \<Longrightarrow> \<not> isConnected st i \<Longrightarrow>
   loop_body rs i st =
     beep 1000 (connectToServer i (rs i)
       (say (TryConnect i (ItagAddress (Itag st ! i))) (st\<lparr>led := True\<rparr>)))"
  by (simp add: loop_body_def Let_def)

lemma loop_body_no_trial:
  "\<not> (advertized (Itag st ! i) \<and> \<not> isConnected st i) \<Longrightarrow>
   loop_body rs i st = (if advertized (Itag st ! i) then st\<lparr>led := True\<rparr> else st)"
  by (auto simp: loop_body_def Let_def)

lemma beep_fields [simp]:
  "Itag (beep d st) = Itag st" "restartscan (beep d st) = restartscan st"
  "beeptimer (beep d st) = d" "buzzer (beep d st) = 10"
  "newcontime (beep d st) = newcontime st" "led (beep d st) = led st"
  "serial (beep d st) = serial st" "isConnected (beep d st) = isConnected st"
  by (simp_all add: beep_def)

lemma say_fields [simp]:
  "Itag (say m st) = Itag st" "restartscan (say m st) = restartscan st"
  "beeptimer (say m st) = beeptimer st" "buzzer (say m st) = buzzer st"
  "newcontime (say m st) = newcontime st" "led (say m st) = led st"
  "serial (say m st) = serial st @ [m]" "isConnected (say m st) = isConnected st"
  by (simp_all add: say_def)

lemma beep_unchanged_without_trial:
  "radio (fold (loop_body rs) js st) = radio st \<Longrightarrow>
   beeptimer (fold (loop_body rs) js st) = beeptimer st \<and>
   buzzer (fold (loop_body rs) js st) = buzzer st"
proof (induction js arbitrary: st)
  case Nil
  show ?case by simp
next
  case (Cons j js)
  obtain cs where cs: "radio (fold (loop_body rs) js (loop_body rs j st)) =
      radio (loop_body rs j st) @ map ClientConnect cs"
    using radio_fold_loop_body by blast
  from Cons.prems have "radio (loop_body rs j st) @ map ClientConnect cs = radio st"
    by (simp add: cs)
  then have no: "\<not> (advertized (Itag st ! j) \<and> \<not> isConnected st j)" and "cs = []"
    by (auto simp: radio_loop_body split: if_splits)
  then have "radio (fold (loop_body rs) js (loop_body rs j st)) = radio (loop_body rs j st)"
    by (simp add: cs)
  from Cons.IH [OF this] show ?case
    by (simp add: loop_body_no_trial [OF no])
qed

lemma beep_after_trial:
  "radio (fold (loop_body rs) js st) \<noteq> radio st \<Longrightarrow>
   beeptimer (fold (loop_body rs) js st) = 1000 \<and> buzzer (fold (loop_body rs) js st) = 10"
proof (induction js arbitrary: st)
  case Nil
  then show ?case by simp
next
  case (Cons j js)
  show ?case
  proof (cases "radio (fold (loop_body rs) js (loop_body rs j st)) = radio (loop_body rs j st)")
    case False
    from Cons.IH [OF this] show ?thesis by simp
  next
    case True
    with Cons.prems have "radio (loop_body rs j st) \<noteq> radio st"
      by simp
    then have "advertized (Itag st ! j)" "\<not> isConnected st j"
      by (auto simp: radio_loop_body split: if_splits)
    then have "beeptimer (loop_body rs j st) = 1000" "buzzer (loop_body rs j st) = 10"
      by (simp_all add: loop_body_trial)
    with beep_unchanged_without_trial [OF True] show ?thesis by simp
  qed
qed

text \<open>
  C3, as amended. Whatever the library answers, a connect trial of \<^verbatim>\<open>loop()\<close> (for a tag
  that is advertised and whose client is not connected) calls \<^verbatim>\<open>connect\<close> and then
  starts the long beep of \<open>1000\<close> ms, and a pass of \<^verbatim>\<open>loop()\<close> that made a trial ends
  with the buzzer on and \<open>900\<close> ms to go. The restart of the scan is requested by the
  client callbacks only: after the trial \<open>restartscan\<close> is raised if it was raised before
  or if the library ran a callback during \<^verbatim>\<open>connect\<close>.
\<close>

theorem connect_trial_beeps:
  "(advertized (Itag st ! i) \<and> \<not> isConnected st i \<longrightarrow>
      radio (loop_body rs i st) = radio st @ [ClientConnect (ItagAddress (Itag st ! i))] \<and>
      beeptimer (loop_body rs i st) = 1000 \<and> buzzer (loop_body rs i st) = 10 \<and>
      (restartscan (loop_body rs i st) \<longleftrightarrow> restartscan st \<or> delivered (rs i) \<noteq> [])) \<and>
   (radio (loop_trials now now' rs st) \<noteq> radio st \<longrightarrow>
      beeptimer (loop now now' rs st) = 900 \<and> buzzer (loop now now' rs st) = 10)"
proof (intro conjI impI)
  assume a: "advertized (Itag st ! i) \<and> \<not> isConnected st i"
  then show "radio (loop_body rs i st) = radio st @ [ClientConnect (ItagAddress (Itag st ! i))]"
    by (simp add: radio_loop_body)
  from a show "beeptimer (loop_body rs i st) = 1000" "buzzer (loop_body rs i st) = 10"
    "restartscan (loop_body rs i st) \<longleftrightarrow> restartscan st \<or> delivered (rs i) \<noteq> []"
    by (simp_all add: loop_body_trial)
next
  assume r: "radio (loop_trials now now' rs st) \<noteq> radio st"
  then have t: "newcontime st < now"
    by (auto simp: loop_trials_def split: if_splits)
  with r have "radio (fold (loop_body rs) [0..<NITAGS st] (st\<lparr>led := False\<rparr>)) \<noteq>
      radio (st\<lparr>led := False\<rparr>)"
    by (simp add: loop_trials_def)
  from beep_after_trial [OF this] t
  have "beeptimer (loop_trials now now' rs st) = 1000" "buzzer (loop_trials now now' rs st) = 10"
    by (simp_all add: loop_trials_def)
  then show "beeptimer (loop now now' rs st) = 900" "buzzer (loop now now' rs st) = 10"
    by (simp_all add: loop_def loop_restart_def handle_beeptimer_def Let_def)
qed

theorem connect_trial_beeps_witness:
  "advertized (Itag tag0_advertised ! 0) \<and> \<not> isConnected tag0_advertised 0 \<and>
   beeptimer (loop_body (\<lambda>i. reply_fail) 0 tag0_advertised) = 1000 \<and>
   buzzer (loop_body (\<lambda>i. reply_fail) 0 tag0_advertised) = 10 \<and>
   \<not> restartscan (loop_body (\<lambda>i. reply_fail) 0 tag0_advertised) \<and>
   restartscan (loop_body (\<lambda>i. reply_ok) 0 tag0_advertised) \<and>
   radio (loop_trials 1000 3000 (\<lambda>i. reply_fail) tag0_advertised) \<noteq> radio tag0_advertised \<and>
   beeptimer (loop 1000 3000 (\<lambda>i. reply_fail) tag0_advertised) = 900 \<and>
   buzzer (loop 1000 3000 (\<lambda>i. reply_fail) tag0_advertised) = 10"
proof -
  have h: "advertized (Itag tag0_advertised ! 0) \<and> \<not> isConnected tag0_advertised 0"
    by (simp add: tag0_advertised_eq)
  have d: "delivered reply_fail = []" "delivered reply_ok \<noteq> []" "\<not> restartscan tag0_advertised"
    by (simp_all add: reply_defs tag0_advertised_eq)
  have r: "radio (loop_trials 1000 3000 (\<lambda>i. reply_fail) tag0_advertised) \<noteq> radio tag0_advertised"
    by (simp add: loop_trials_def tag0_advertised_eq NITAGS_def radio_loop_body
        loop_body_def connectToServer_def client_connect_def reply_defs say_def beep_def)
  show ?thesis
    using connect_trial_beeps [of tag0_advertised 0 "\<lambda>i. reply_fail" 1000 3000]
      connect_trial_beeps [of tag0_advertised 0 "\<lambda>i. reply_ok" 1000 3000] h d r
    by simp
qed

text \<open>
  C3 as stated fails: when \<^verbatim>\<open>connect\<close> fails and the library runs no callback, the
  trial raises no request to restart the scan, and the pass makes no scan call after the
  connect.
\<close>

theorem connect_trial_no_restart_counterexample:
  "\<not> restartscan (loop_body (\<lambda>i. reply_fail) 0 tag0_advertised) \<and>
   \<not> restartscan (loop_trials 1000 3000 (\<lambda>i. reply_fail) tag0_advertised) \<and>
   radio (loop 1000 3000 (\<lambda>i. reply_fail) tag0_advertised) =
     [ScanStart 0, ClientConnect ''ff:ff:11:11:a2:fa'']"
  by (simp add: tag0_advertised_eq sketch_defs reply_defs)

lemma loop_body_fields [simp]:
  "length (Itag (loop_body rs i st)) = length (Itag st)"
  "newcontime (loop_body rs i st) = newcontime st"
  by (simp_all add: loop_body_def Let_def)

lemma fold_loop_body_fields [simp]:
  "length (Itag (fold (loop_body rs) js st)) = length (Itag st)"
  "newcontime (fold (loop_body rs) js st) = newcontime st"
  by (induction js arbitrary: st) simp_all

lemma Itag_loop_restart [simp]: "Itag (loop_restart st) = Itag st"
  by (simp add: loop_restart_def)

lemma Itag_handle_beeptimer [simp]: "Itag (handle_beeptimer st) = Itag st"
  by (simp add: handle_beeptimer_def Let_def)

text \<open>The callbacks run during \<^verbatim>\<open>connect\<close> leave \<open>pRemChar\<close> alone.\<close>

lemma pRemChar_advertized_update:
  "i < length xs \<Longrightarrow> pRemChar (xs[a := (xs ! a)\<lparr>advertized := b\<rparr>] ! i) = pRemChar (xs ! i)"
  by (cases "a = i") simp_all

lemma pRemChar_onDisconnect:
  "i < length (Itag st) \<Longrightarrow> pRemChar (Itag (onDisconnect m st) ! i) = pRemChar (Itag st ! i)"
proof -
  have "i < length (Itag s) \<Longrightarrow>
      pRemChar (Itag (onDisconnect_for m js s) ! i) = pRemChar (Itag s ! i)" for js s
    by (induction js) (simp_all add: pRemChar_advertized_update)
  then show "i < length (Itag st) \<Longrightarrow>
      pRemChar (Itag (onDisconnect m st) ! i) = pRemChar (Itag st ! i)"
    by (simp add: onDisconnect_def Let_def)
qed

lemma pRemChar_deliver:
  "i < length (Itag st) \<Longrightarrow> pRemChar (Itag (deliver m c st) ! i) = pRemChar (Itag st ! i)"
  by (cases c) (simp_all add: pRemChar_onDisconnect)

lemma pRemChar_fold_deliver:
  "i < length (Itag st) \<Longrightarrow>
   pRemChar (Itag (fold (deliver m) cs st) ! i) = pRemChar (Itag st ! i)"
  by (induction cs arbitrary: st) (simp_all add: pRemChar_deliver del: deliver.simps)

lemma pRemChar_client_connect:
  "i < length (Itag st) \<Longrightarrow>
   pRemChar (Itag (client_connect j r st) ! i) = pRemChar (Itag st ! i)"
  by (simp add: client_connect_def pRemChar_fold_deliver)

lemma deliver_itagtest_fields [simp]:
  "Itag (deliver_itagtest p c st) = Itag st"
  "isConnected (deliver_itagtest p c st) = isConnected st"
  by (cases c; simp add: onConnect_itagtest_def onDisconnect_itagtest_def)+

lemma fold_deliver_itagtest_fields [simp]:
  "Itag (fold (deliver_itagtest p) cs st) = Itag st"
  "isConnected (fold (deliver_itagtest p) cs st) = isConnected st"
  by (induction cs arbitrary: st; simp del: deliver_itagtest.simps)+

lemma client_connect_itagtest_fields [simp]:
  "Itag (client_connect_itagtest i r st) = Itag st"
  "isConnected (client_connect_itagtest i r st) = (isConnected st)(i := nowConnected r)"
  by (simp_all add: client_connect_itagtest_def)

lemma connectToServer_itagtest_connected:
  fixes i :: nat and st :: sys
  assumes "nowConnected r" "res r"
  defines "st1 \<equiv> client_connect_itagtest i r st"
  shows "\<exists>ms. connectToServer_itagtest i r st =
     st1\<lparr>Itag := (if buttonService r
                   then (Itag st1)[i := (Itag st1 ! i)\<lparr>pRemChar := buttonChar r\<rparr>]
                   else Itag st1),
         serial := serial st1 @ ms\<rparr>"
proof -
  have c: "isConnected st1 i" using assms(1) by (simp add: st1_def)
  define st2 where "st2 =
     (if \<not> batteryService r then say FailedBatteryService st1
      else (case batteryChar r of Some battperc \<Rightarrow> say (BatteryIs battperc) st1 | None \<Rightarrow> st1))"
  define m2 where "m2 =
     (if \<not> batteryService r then [FailedBatteryService]
      else (case batteryChar r of Some battperc \<Rightarrow> [BatteryIs battperc] | None \<Rightarrow> []))"
  have st2: "st2 = st1\<lparr>serial := serial st1 @ m2\<rparr>"
    by (simp add: st2_def m2_def say_def split: option.split)
  have unfold: "connectToServer_itagtest i r st =
     (if buttonService r then
        (let st3 = say FoundButtonService st2;
             st4 = st3\<lparr>Itag := (Itag st3)[i := (Itag st3 ! i)\<lparr>pRemChar := buttonChar r\<rparr>]\<rparr>
         in if pRemChar (Itag st4 ! i) \<noteq> None then say NotificationCallbackSet st4 else st4)
      else say ButtonServiceNotFound st2)"
    using c assms(2)
    by (simp add: connectToServer_itagtest_def st1_def [symmetric] st2_def [symmetric] Let_def)
  show ?thesis
  proof (cases "buttonService r")
    case False
    then have "connectToServer_itagtest i r st =
        st1\<lparr>Itag := Itag st1, serial := serial st1 @ (m2 @ [ButtonServiceNotFound])\<rparr>"
      by (simp add: unfold st2 say_def)
    with False show ?thesis by (intro exI [of _ "m2 @ [ButtonServiceNotFound]"]) simp
  next
    case True
    define ms where "ms =
       (if pRemChar ((Itag st1)[i := (Itag st1 ! i)\<lparr>pRemChar := buttonChar r\<rparr>] ! i) \<noteq> None
        then [NotificationCallbackSet] else [])"
    have "connectToServer_itagtest i r st =
        st1\<lparr>Itag := (Itag st1)[i := (Itag st1 ! i)\<lparr>pRemChar := buttonChar r\<rparr>],
            serial := serial st1 @ (m2 @ FoundButtonService # ms)\<rparr>"
      using True by (simp add: unfold st2 say_def Let_def ms_def)
    with True show ?thesis by (intro exI [of _ "m2 @ FoundButtonService # ms"]) simp
  qed
qed

text \<open>
  C7, as amended. After a connect that succeeded (the client is connected and \<^verbatim>\<open>connect\<close>
  returned true), \<^verbatim>\<open>connectToServer\<close> changes nothing but the serial log and, if the
  button service is found, \<open>pRemChar\<close> of the tag, in both sketches: a missing battery
  service or characteristic, a missing button service or characteristic, a
  characteristic that cannot notify and a failed subscribe make no radio call and leave
  the client connected. If the button service is found, \<open>pRemChar\<close> becomes what the
  look-up of the characteristic returned, whether the characteristic can notify and
  whether subscribing worked or not; if the service is missing, \<open>pRemChar\<close> keeps the
  value it had.
\<close>

theorem connected_setup_best_effort:
  fixes i :: nat and st :: sys
  assumes "nowConnected r" "res r"
  defines "st1 \<equiv> client_connect i r st"
    and "st1' \<equiv> client_connect_itagtest i r st"
  shows "(\<exists>ms. connectToServer i r st =
       st1\<lparr>Itag := (if buttonService r
                     then (Itag st1)[i := (Itag st1 ! i)\<lparr>pRemChar := buttonChar r\<rparr>]
                     else Itag st1),
           serial := serial st1 @ ms\<rparr>) \<and>
     (\<exists>ms. connectToServer_itagtest i r st =
       st1'\<lparr>Itag := (if buttonService r
                      then (Itag st1')[i := (Itag st1' ! i)\<lparr>pRemChar := buttonChar r\<rparr>]
                      else Itag st1'),
            serial := serial st1' @ ms\<rparr>) \<and>
     isConnected (connectToServer i r st) i \<and> isConnected (connectToServer_itagtest i r st) i \<and>
     radio (connectToServer i r st) = radio st1 \<and>
     radio (connectToServer_itagtest i r st) = radio st1' \<and>
     (i < NITAGS st \<longrightarrow>
        pRemChar (Itag (connectToServer i r st) ! i) =
          (if buttonService r then buttonChar r else pRemChar (Itag st ! i)) \<and>
        pRemChar (Itag (connectToServer_itagtest i r st) ! i) =
          (if buttonService r then buttonChar r else pRemChar (Itag st ! i)))"
proof -
  obtain ms where a: "connectToServer i r st =
       st1\<lparr>Itag := (if buttonService r
                     then (Itag st1)[i := (Itag st1 ! i)\<lparr>pRemChar := buttonChar r\<rparr>]
                     else Itag st1),
           serial := serial st1 @ ms\<rparr>"
    using connectToServer_connected [OF assms(1,2), of i st] unfolding st1_def by blast
  obtain ms' where b: "connectToServer_itagtest i r st =
       st1'\<lparr>Itag := (if buttonService r
                      then (Itag st1')[i := (Itag st1' ! i)\<lparr>pRemChar := buttonChar r\<rparr>]
                      else Itag st1'),
            serial := serial st1' @ ms'\<rparr>"
    using connectToServer_itagtest_connected [OF assms(1,2), of i st] unfolding st1'_def by blast
  have c: "isConnected st1 i" "isConnected st1' i"
    using assms(1) by (simp_all add: st1_def st1'_def)
  have l: "length (Itag st1) = NITAGS st" "Itag st1' = Itag st"
    by (simp_all add: st1_def st1'_def NITAGS_def)
  have p: "pRemChar (Itag (connectToServer i r st) ! i) =
          (if buttonService r then buttonChar r else pRemChar (Itag st ! i))"
      "pRemChar (Itag (connectToServer_itagtest i r st) ! i) =
          (if buttonService r then buttonChar r else pRemChar (Itag st ! i))"
    if "i < NITAGS st"
  proof -
    have "pRemChar (Itag st1 ! i) = pRemChar (Itag st ! i)"
      using that by (simp add: st1_def NITAGS_def pRemChar_client_connect)
    then show "pRemChar (Itag (connectToServer i r st) ! i) =
          (if buttonService r then buttonChar r else pRemChar (Itag st ! i))"
      using that by (simp add: a l NITAGS_def)
    show "pRemChar (Itag (connectToServer_itagtest i r st) ! i) =
          (if buttonService r then buttonChar r else pRemChar (Itag st ! i))"
      using that by (simp add: b l NITAGS_def)
  qed
  have i: "isConnected (connectToServer i r st) i" "isConnected (connectToServer_itagtest i r st) i"
    "radio (connectToServer i r st) = radio st1"
    "radio (connectToServer_itagtest i r st) = radio st1'"
    using c by (simp_all add: a b)
  from a have "\<exists>ms. connectToServer i r st =
       st1\<lparr>Itag := (if buttonService r
                     then (Itag st1)[i := (Itag st1 ! i)\<lparr>pRemChar := buttonChar r\<rparr>]
                     else Itag st1),
           serial := serial st1 @ ms\<rparr>" ..
  moreover from b have "\<exists>ms. connectToServer_itagtest i r st =
       st1'\<lparr>Itag := (if buttonService r
                      then (Itag st1')[i := (Itag st1' ! i)\<lparr>pRemChar := buttonChar r\<rparr>]
                      else Itag st1'),
            serial := serial st1' @ ms\<rparr>" ..
  ultimately show ?thesis using i p by blast
qed

theorem connected_setup_best_effort_witness:
  "nowConnected reply_silent \<and> res reply_silent \<and> 0 < NITAGS tag0_advertised \<and>
   isConnected (connectToServer 0 reply_silent tag0_advertised) 0 \<and>
   isConnected (connectToServer_itagtest 0 reply_silent tag0_advertised) 0 \<and>
   pRemChar (Itag (connectToServer 0 reply_silent tag0_advertised) ! 0) = None \<and>
   pRemChar (Itag (connectToServer_itagtest 0 reply_silent tag0_advertised) ! 0) = None \<and>
   pRemChar (Itag (connectToServer 0 reply_ok tag0_advertised) ! 0) = Some 7 \<and>
   pRemChar (Itag (connectToServer_itagtest 0 reply_ok tag0_advertised) ! 0) = Some 7"
proof -
  have h: "nowConnected reply_silent" "res reply_silent" "nowConnected reply_ok" "res reply_ok"
    "0 < NITAGS tag0_advertised"
    by (simp_all add: reply_defs tag0_advertised_eq NITAGS_def)
  have v: "\<not> buttonService reply_silent" "buttonService reply_ok" "buttonChar reply_ok = Some 7"
    "pRemChar (Itag tag0_advertised ! 0) = None"
    "pRemChar (Itag (client_connect 0 reply_silent tag0_advertised) ! 0) = None"
    by (simp_all add: reply_defs tag0_advertised_eq Itag_client_connect)
  show ?thesis
    using connected_setup_best_effort [OF h(1,2), of 0 tag0_advertised]
      connected_setup_best_effort [OF h(3,4), of 0 tag0_advertised] h v
    by simp
qed

text \<open>
  C7 as stated fails on two inputs. The button characteristic is found but cannot notify
  (and nothing is subscribed): \<open>pRemChar\<close> is bound all the same. The tag has been
  connected before and is connected again, this time without button service:
  \<open>pRemChar\<close> is still bound, to the characteristic of the earlier connection.
\<close>

theorem bound_without_notify_counterexample:
  "\<not> canNotify reply_mute \<and>
   pRemChar (Itag (connectToServer 0 reply_mute tag0_advertised) ! 0) = Some 7 \<and>
   \<not> buttonService reply_silent \<and>
   pRemChar (Itag (connectToServer 0 reply_silent tag0_back) ! 0) = Some 7 \<and>
   isConnected (connectToServer 0 reply_silent tag0_back) 0"
  by (simp add: tag0_advertised_eq tag0_back_eq tag0_lost_eq sketch_defs reply_defs)

subsection \<open>The LED\<close>

lemma led_loop_restart [simp]: "led (loop_restart st) = led st"
  by (simp add: loop_restart_def)

lemma led_handle_beeptimer [simp]: "led (handle_beeptimer st) = led st"
  by (simp add: handle_beeptimer_def Let_def)

lemma map_advertized_pRemChar:
  "map advertized (xs[i := (xs ! i)\<lparr>pRemChar := p\<rparr>]) = map advertized xs"
  by (cases "i < length xs") (auto simp: list_eq_iff_nth_eq nth_list_update)

lemma map_advertized_connectToServer:
  assumes "Disconnected \<notin> set (delivered r)"
  shows "map advertized (Itag (connectToServer i r st)) = map advertized (Itag st)"
proof (cases "\<not> nowConnected r \<or> \<not> res r")
  case True
  then show ?thesis using assms by (simp add: connectToServer_failed Itag_client_connect)
next
  case False
  then obtain ms where "connectToServer i r st =
      (client_connect i r st)
        \<lparr>Itag := (if buttonService r
                  then (Itag (client_connect i r st))
                    [i := (Itag (client_connect i r st) ! i)\<lparr>pRemChar := buttonChar r\<rparr>]
                  else Itag (client_connect i r st)),
         serial := serial (client_connect i r st) @ ms\<rparr>"
    using connectToServer_connected [of r i st] by blast
  then show ?thesis using assms by (simp add: map_advertized_pRemChar Itag_client_connect)
qed

lemma loop_body_led:
  assumes "Disconnected \<notin> set (delivered (rs i))"
  shows "map advertized (Itag (loop_body rs i st)) = map advertized (Itag st)"
    and "led (loop_body rs i st) \<longleftrightarrow> led st \<or> advertized (Itag st ! i)"
proof -
  show "map advertized (Itag (loop_body rs i st)) = map advertized (Itag st)"
  proof (cases "advertized (Itag st ! i) \<and> \<not> isConnected st i")
    case True
    then show ?thesis using assms by (simp add: loop_body_trial map_advertized_connectToServer)
  next
    case False
    then show ?thesis by (simp add: loop_body_no_trial)
  qed
  show "led (loop_body rs i st) \<longleftrightarrow> led st \<or> advertized (Itag st ! i)"
  proof (cases "advertized (Itag st ! i) \<and> \<not> isConnected st i")
    case True
    then show ?thesis by (simp add: loop_body_trial)
  next
    case False
    then show ?thesis by (simp add: loop_body_no_trial)
  qed
qed

lemma fold_loop_body_led:
  assumes "\<forall>j\<in>set js. j < length (Itag st) \<and> Disconnected \<notin> set (delivered (rs j))"
  shows "map advertized (Itag (fold (loop_body rs) js st)) = map advertized (Itag st) \<and>
     (led (fold (loop_body rs) js st) \<longleftrightarrow> led st \<or> (\<exists>j\<in>set js. advertized (Itag st ! j)))"
  using assms
proof (induction js arbitrary: st)
  case Nil
  show ?case by simp
next
  case (Cons j js)
  have q: "Disconnected \<notin> set (delivered (rs j))" and j: "j < length (Itag st)"
    using Cons.prems by simp_all
  have m: "map advertized (Itag (loop_body rs j st)) = map advertized (Itag st)"
    using q by (rule loop_body_led)
  have n: "advertized (Itag (loop_body rs j st) ! k) = advertized (Itag st ! k)"
    if "k < length (Itag st)" for k
    using that arg_cong [OF m, of "\<lambda>xs. xs ! k"] by simp
  have "\<forall>k\<in>set js. k < length (Itag (loop_body rs j st)) \<and> Disconnected \<notin> set (delivered (rs k))"
    using Cons.prems by simp
  from Cons.IH [OF this] have
    "map advertized (Itag (fold (loop_body rs) (j # js) st)) = map advertized (Itag st)"
    "led (fold (loop_body rs) (j # js) st) \<longleftrightarrow>
       led (loop_body rs j st) \<or> (\<exists>k\<in>set js. advertized (Itag (loop_body rs j st) ! k))"
    by (simp_all add: m)
  moreover have "(\<exists>k\<in>set js. advertized (Itag (loop_body rs j st) ! k)) \<longleftrightarrow>
      (\<exists>k\<in>set js. advertized (Itag st ! k))"
    using Cons.prems n by auto
  ultimately show ?case
    using q loop_body_led(2) [of rs j st] by auto
qed

lemma led_loop_body: "led (loop_body rs i st) \<longleftrightarrow> led st \<or> advertized (Itag st ! i)"
  by (cases "advertized (Itag st ! i) \<and> \<not> isConnected st i")
    (simp_all add: loop_body_trial loop_body_no_trial)

text \<open>The LED after the loop over the tags: on if it was on or if some tag was advertised
  when its turn came.\<close>

lemma led_fold_loop_body:
  "led (fold (loop_body rs) js st) \<longleftrightarrow>
     led st \<or> (\<exists>k<length js. advertized (Itag (fold (loop_body rs) (take k js) st) ! (js ! k)))"
proof (induction js rule: rev_induct)
  case Nil
  show ?case by simp
next
  case (snoc j js)
  have "(\<exists>k<length (js @ [j]).
        advertized (Itag (fold (loop_body rs) (take k (js @ [j])) st) ! ((js @ [j]) ! k))) \<longleftrightarrow>
      (\<exists>k<length js. advertized (Itag (fold (loop_body rs) (take k js) st) ! (js ! k))) \<or>
      advertized (Itag (fold (loop_body rs) js st) ! j)"
    (is "?L \<longleftrightarrow> ?A \<or> ?B")
  proof
    assume ?L
    then obtain k where k: "k < Suc (length js)"
      "advertized (Itag (fold (loop_body rs) (take k (js @ [j])) st) ! ((js @ [j]) ! k))"
      by auto
    show "?A \<or> ?B"
    proof (cases "k < length js")
      case True
      with k(2) have "advertized (Itag (fold (loop_body rs) (take k js) st) ! (js ! k))"
        by (simp add: nth_append)
      with True show ?thesis by blast
    next
      case False
      with k(1) have "k = length js" by simp
      with k(2) show ?thesis by simp
    qed
  next
    assume "?A \<or> ?B"
    then show ?L
    proof
      assume ?A
      then obtain k where "k < length js"
        "advertized (Itag (fold (loop_body rs) (take k js) st) ! (js ! k))"
        by blast
      then show ?L by (intro exI [of _ k]) (simp add: nth_append)
    next
      assume ?B
      then show ?L by (intro exI [of _ "length js"]) simp
    qed
  qed
  then show ?case by (simp add: led_loop_body snoc.IH)
qed

lemma led_loop_trials:
  assumes "newcontime st < now"
  shows "led (loop now now' rs st) \<longleftrightarrow>
     (\<exists>k<NITAGS st. advertized (Itag (fold (loop_body rs) [0..<k] (st\<lparr>led := False\<rparr>)) ! k))"
proof -
  have "led (loop now now' rs st) \<longleftrightarrow>
      led (fold (loop_body rs) [0..<NITAGS st] (st\<lparr>led := False\<rparr>))"
    using assms by (simp add: loop_def loop_trials_def)
  also have "\<dots> \<longleftrightarrow> (\<exists>k<length [0..<NITAGS st].
      advertized (Itag (fold (loop_body rs) (take k [0..<NITAGS st]) (st\<lparr>led := False\<rparr>)) !
        ([0..<NITAGS st] ! k)))"
    by (subst led_fold_loop_body) simp
  also have "\<dots> \<longleftrightarrow>
      (\<exists>k<NITAGS st. advertized (Itag (fold (loop_body rs) [0..<k] (st\<lparr>led := False\<rparr>)) ! k))"
    by (auto simp: take_upt min_def)
  finally show ?thesis .
qed

text \<open>
  C8, as amended. A pass of \<^verbatim>\<open>loop()\<close> whose timer has not expired leaves the LED as it
  is. A pass whose timer has expired (one every \<open>5\<close> s) sets the LED: it is on afterwards
  if and only if some tag was advertised, connected or not, when the loop over the tags
  came to it. Provided the library runs no disconnect callback during the connects of the
  pass, this is to say that some tag is advertised before the pass, and the pass does not
  change which tags are advertised.
\<close>

theorem presence_indicator:
  "(\<not> newcontime st < now \<longrightarrow> led (loop now now' rs st) = led st) \<and>
   (newcontime st < now \<longrightarrow>
      (led (loop now now' rs st) \<longleftrightarrow>
         (\<exists>k<NITAGS st.
            advertized (Itag (fold (loop_body rs) [0..<k] (st\<lparr>led := False\<rparr>)) ! k)))) \<and>
   (newcontime st < now \<and> (\<forall>i<NITAGS st. Disconnected \<notin> set (delivered (rs i))) \<longrightarrow>
      (led (loop now now' rs st) \<longleftrightarrow> (\<exists>t\<in>set (Itag st). advertized t)) \<and>
      map advertized (Itag (loop now now' rs st)) = map advertized (Itag st))"
proof (intro conjI impI)
  assume "\<not> newcontime st < now"
  then show "led (loop now now' rs st) = led st"
    by (simp add: loop_def loop_trials_def)
next
  assume "newcontime st < now"
  then show "led (loop now now' rs st) \<longleftrightarrow>
      (\<exists>k<NITAGS st. advertized (Itag (fold (loop_body rs) [0..<k] (st\<lparr>led := False\<rparr>)) ! k))"
    by (rule led_loop_trials)
next
  assume a: "newcontime st < now \<and> (\<forall>i<NITAGS st. Disconnected \<notin> set (delivered (rs i)))"
  then have "\<forall>j\<in>set [0..<NITAGS st].
      j < length (Itag (st\<lparr>led := False\<rparr>)) \<and> Disconnected \<notin> set (delivered (rs j))"
    by (simp add: NITAGS_def)
  from fold_loop_body_led [OF this]
  have f: "map advertized (Itag (fold (loop_body rs) [0..<NITAGS st] (st\<lparr>led := False\<rparr>))) =
      map advertized (Itag st)"
    "led (fold (loop_body rs) [0..<NITAGS st] (st\<lparr>led := False\<rparr>)) \<longleftrightarrow>
      (\<exists>j<NITAGS st. advertized (Itag st ! j))"
    by auto
  have "(\<exists>j<NITAGS st. advertized (Itag st ! j)) \<longleftrightarrow> (\<exists>t\<in>set (Itag st). advertized t)"
    by (metis NITAGS_def in_set_conv_nth)
  with f(2) a show "led (loop now now' rs st) \<longleftrightarrow> (\<exists>t\<in>set (Itag st). advertized t)"
    by (simp add: loop_def loop_trials_def)
  from f(1) a show "map advertized (Itag (loop now now' rs st)) = map advertized (Itag st)"
    by (simp add: loop_def loop_trials_def)
qed

theorem presence_indicator_witness:
  "\<not> newcontime tag0_lost < 1100 \<and> led (loop 1100 1100 (\<lambda>i. reply_ok) tag0_lost) = led tag0_lost \<and>
   newcontime tag0_lost < 9000 \<and> \<not> led (loop 9000 9000 (\<lambda>i. reply_ok) tag0_lost) \<and>
   newcontime tag0_advertised < 1000 \<and> led (loop 1000 3000 (\<lambda>i. reply_ok) tag0_advertised)"
proof -
  have h: "\<not> newcontime tag0_lost < 1100" "newcontime tag0_lost < 9000"
    "newcontime tag0_advertised < 1000"
    "\<forall>i<NITAGS tag0_lost. Disconnected \<notin> set (delivered ((\<lambda>i. reply_ok) i))"
    "\<forall>i<NITAGS tag0_advertised. Disconnected \<notin> set (delivered ((\<lambda>i. reply_ok) i))"
    by (simp_all add: tag0_lost_eq tag0_advertised_eq reply_defs)
  have v: "\<not> (\<exists>t\<in>set (Itag tag0_lost). advertized t)"
    "\<exists>t\<in>set (Itag tag0_advertised). advertized t"
    by (simp_all add: tag0_lost_eq tag0_advertised_eq)
  from presence_indicator [of tag0_lost 1100 1100 "\<lambda>i. reply_ok"] h(1)
  have 1: "led (loop 1100 1100 (\<lambda>i. reply_ok) tag0_lost) = led tag0_lost"
    by blast
  from presence_indicator [of tag0_lost 9000 9000 "\<lambda>i. reply_ok"] h(2,4) v(1)
  have 2: "\<not> led (loop 9000 9000 (\<lambda>i. reply_ok) tag0_lost)"
    by blast
  from presence_indicator [of tag0_advertised 1000 3000 "\<lambda>i. reply_ok"] h(3,5) v(2)
  have 3: "led (loop 1000 3000 (\<lambda>i. reply_ok) tag0_advertised)"
    by blast
  show ?thesis using h 1 2 3 by blast
qed

text \<open>
  C8 as stated fails: \<open>100\<close> ms after the connection of the only advertised tag was lost,
  the pass of \<^verbatim>\<open>loop()\<close> finds its timer not expired, and the LED stays on although no
  tag is advertised.
\<close>

theorem presence_indicator_counterexample:
  "led (loop 1100 1100 (\<lambda>i. reply_ok) tag0_lost) \<and>
   map advertized (Itag (loop 1100 1100 (\<lambda>i. reply_ok) tag0_lost)) = [False, False, False]"
  by (simp add: tag0_lost_eq loop_def loop_trials_def loop_restart_def handle_beeptimer_def)

subsection \<open>Runs\<close>

lemma onResult_body_fields [simp]:
  "length (Itag (onResult_body p i st)) = length (Itag st)"
  "isConnected (onResult_body p i st) = isConnected st"
  by (simp_all add: onResult_body_def)

lemma onResult_fields [simp]:
  "length (Itag (onResult p st)) = length (Itag st)"
  "isConnected (onResult p st) = isConnected st"
proof -
  have "length (Itag (fold (onResult_body p) js st)) = length (Itag st) \<and>
      isConnected (fold (onResult_body p) js st) = isConnected st" for js
    by (induction js arbitrary: st) simp_all
  then show "length (Itag (onResult p st)) = length (Itag st)"
    "isConnected (onResult p st) = isConnected st"
    by (simp_all add: onResult_def)
qed

lemma notifyCallback_fields [simp]:
  "length (Itag (notifyCallback p t st)) = length (Itag st)"
  "isConnected (notifyCallback p t st) = isConnected st"
proof -
  have "length (Itag (notifyCallback_for p t js st)) = length (Itag st) \<and>
      isConnected (notifyCallback_for p t js st) = isConnected st" for js
    by (induction js) simp_all
  then show "length (Itag (notifyCallback p t st)) = length (Itag st)"
    "isConnected (notifyCallback p t st) = isConnected st"
    by (simp_all add: notifyCallback_def)
qed

lemma loop_fields [simp]:
  "length (Itag (loop now now' rs st)) = length (Itag st)"
  by (simp add: loop_def loop_trials_def)

lemma length_step [simp]: "length (Itag (step e st)) = length (Itag st)"
  by (cases e) (simp_all add: scanEndedCB_def)

lemma run_snoc: "run (evs @ [e]) st = step e (run evs st)"
  by (simp add: run_def)

lemma length_run [simp]: "length (Itag (run evs st)) = length (Itag st)"
  by (induction evs rule: rev_induct) (simp_all add: run_def)

text \<open>No function of the sketch but \<^verbatim>\<open>onResult\<close> sets \<open>advertized\<close>.\<close>

lemma advertized_cleared:
  "i < length xs \<Longrightarrow> advertized (xs[a := (xs ! a)\<lparr>advertized := False\<rparr>] ! i) \<Longrightarrow>
   advertized (xs ! i)"
  by (cases "a = i") simp_all

lemma advertized_pRemChar:
  "i < length xs \<Longrightarrow> advertized (xs[a := (xs ! a)\<lparr>pRemChar := p\<rparr>] ! i) \<Longrightarrow>
   advertized (xs ! i)"
  by (cases "a = i") simp_all

lemma advertized_onDisconnect_for:
  "i < length (Itag st) \<Longrightarrow> advertized (Itag (onDisconnect_for m js st) ! i) \<Longrightarrow>
   advertized (Itag st ! i)"
proof (induction js)
  case Nil
  then show ?case by simp
next
  case (Cons j js)
  show ?case
  proof (cases "ItagAddress (Itag st ! j) = m")
    case True
    with Cons.prems(2)
    have "advertized ((Itag st)[j := (Itag st ! j)\<lparr>advertized := False\<rparr>] ! i)"
      by simp
    with Cons.prems(1) show ?thesis by (rule advertized_cleared)
  next
    case False
    with Cons show ?thesis by simp
  qed
qed

lemma advertized_deliver:
  assumes "i < length (Itag st)" "advertized (Itag (deliver m c st) ! i)"
  shows "advertized (Itag st ! i)"
proof (cases c)
  case Connected
  with assms show ?thesis by simp
next
  case Disconnected
  with assms have "advertized (Itag (onDisconnect_for m
      [0..<NITAGS (say (DisconnectedFrom m) st)] (say (DisconnectedFrom m) st)) ! i)"
    by (simp add: onDisconnect_def Let_def)
  from advertized_onDisconnect_for [OF _ this] assms(1) show ?thesis by simp
qed

lemma advertized_fold_deliver:
  "i < length (Itag st) \<Longrightarrow> advertized (Itag (fold (deliver m) cs st) ! i) \<Longrightarrow>
   advertized (Itag st ! i)"
proof (induction cs arbitrary: st)
  case Nil
  then show ?case by simp
next
  case (Cons c cs)
  have "i < length (Itag (deliver m c st))"
    using Cons.prems(1) by simp
  moreover have "advertized (Itag (fold (deliver m) cs (deliver m c st)) ! i)"
    using Cons.prems(2) by simp
  ultimately have "advertized (Itag (deliver m c st) ! i)"
    by (rule Cons.IH)
  with Cons.prems(1) show ?case by (rule advertized_deliver)
qed

lemma advertized_client_connect:
  assumes "i < length (Itag st)" "advertized (Itag (client_connect j r st) ! i)"
  shows "advertized (Itag st ! i)"
proof -
  define st' where "st' = st\<lparr>radio := radio st @ [ClientConnect (ItagAddress (Itag st ! j))],
      isConnected := (isConnected st)(j := nowConnected r)\<rparr>"
  have "i < length (Itag st')" using assms(1) by (simp add: st'_def)
  moreover have "advertized (Itag (fold (deliver (ItagAddress (Itag st ! j))) (delivered r) st') ! i)"
    using assms(2) by (simp add: client_connect_def st'_def)
  ultimately have "advertized (Itag st' ! i)" by (rule advertized_fold_deliver)
  then show ?thesis by (simp add: st'_def)
qed

lemma advertized_connectToServer:
  assumes "i < length (Itag st)" "advertized (Itag (connectToServer j r st) ! i)"
  shows "advertized (Itag st ! i)"
proof -
  have len: "i < length (Itag (client_connect j r st))"
    using assms(1) by simp
  have "advertized (Itag (client_connect j r st) ! i)"
  proof (cases "\<not> nowConnected r \<or> \<not> res r")
    case True
    with assms(2) show ?thesis by (simp add: connectToServer_failed)
  next
    case False
    then obtain ms where eq: "connectToServer j r st =
        (client_connect j r st)
          \<lparr>Itag := (if buttonService r
                    then (Itag (client_connect j r st))
                      [j := (Itag (client_connect j r st) ! j)\<lparr>pRemChar := buttonChar r\<rparr>]
                    else Itag (client_connect j r st)),
           serial := serial (client_connect j r st) @ ms\<rparr>"
      using connectToServer_connected [of r j st] by blast
    show ?thesis
    proof (cases "buttonService r")
      case True
      with assms(2) have "advertized ((Itag (client_connect j r st))
          [j := (Itag (client_connect j r st) ! j)\<lparr>pRemChar := buttonChar r\<rparr>] ! i)"
        by (simp add: eq)
      with len show ?thesis by (rule advertized_pRemChar)
    next
      case False
      with assms(2) show ?thesis by (simp add: eq)
    qed
  qed
  with assms(1) show ?thesis by (rule advertized_client_connect)
qed

lemma advertized_loop_body:
  assumes "i < length (Itag st)" "advertized (Itag (loop_body rs j st) ! i)"
  shows "advertized (Itag st ! i)"
proof (cases "advertized (Itag st ! j) \<and> \<not> isConnected st j")
  case True
  with assms have "advertized (Itag (connectToServer j (rs j)
      (say (TryConnect j (ItagAddress (Itag st ! j))) (st\<lparr>led := True\<rparr>))) ! i)"
    by (simp add: loop_body_trial)
  from advertized_connectToServer [OF _ this] assms(1) show ?thesis by simp
next
  case False
  with assms show ?thesis by (simp add: loop_body_no_trial split: if_splits)
qed

lemma isConnected_loop_body:
  "isConnected (loop_body rs j st) =
     (if advertized (Itag st ! j) \<and> \<not> isConnected st j
      then (isConnected st)(j := nowConnected (rs j)) else isConnected st)"
  by (simp add: loop_body_trial loop_body_no_trial)

lemma isConnected_fold_loop_body:
  assumes "\<forall>j\<in>set js. j < length (Itag st)" "isConnected (fold (loop_body rs) js st) i"
  shows "isConnected st i \<or> i < length (Itag st) \<and> advertized (Itag st ! i)"
  using assms
proof (induction js arbitrary: st)
  case Nil
  then show ?case by simp
next
  case (Cons j js)
  have "\<forall>k\<in>set js. k < length (Itag (loop_body rs j st))"
    using Cons.prems(1) by simp
  from Cons.IH [OF this] Cons.prems(2)
  consider "isConnected (loop_body rs j st) i"
    | "i < length (Itag st)" "advertized (Itag (loop_body rs j st) ! i)"
    by auto
  then show ?case
  proof cases
    case 1
    then show ?thesis
      using Cons.prems(1) by (auto simp: isConnected_loop_body split: if_splits)
  next
    case 2
    then show ?thesis by (auto dest: advertized_loop_body)
  qed
qed

lemma isConnected_loop:
  assumes "isConnected (loop now now' rs st) i"
  shows "isConnected st i \<or> i < NITAGS st \<and> advertized (Itag st ! i)"
proof -
  have h: "isConnected (handle_beeptimer s) = isConnected s"
    "isConnected (loop_restart s) = isConnected s" for s
    by (simp_all add: handle_beeptimer_def loop_restart_def Let_def)
  show ?thesis
  proof (cases "newcontime st < now")
    case False
    with assms show ?thesis by (simp add: loop_def loop_trials_def h)
  next
    case True
    with assms have "isConnected (fold (loop_body rs) [0..<NITAGS st] (st\<lparr>led := False\<rparr>)) i"
      by (simp add: loop_def loop_trials_def h)
    moreover have "\<forall>j\<in>set [0..<NITAGS st]. j < length (Itag (st\<lparr>led := False\<rparr>))"
      by (simp add: NITAGS_def)
    ultimately show ?thesis
      using isConnected_fold_loop_body [of "[0..<NITAGS st]" "st\<lparr>led := False\<rparr>" rs i]
      by (simp add: NITAGS_def)
  qed
qed

lemma isConnected_step:
  assumes "isConnected (step e st) i"
  shows "isConnected st i \<or> i < NITAGS st \<and> advertized (Itag st ! i)"
proof (cases e)
  case (Pass now now' rs)
  with assms show ?thesis by (simp add: isConnected_loop)
next
  case (ConnectionLost j)
  with assms show ?thesis by (simp split: if_splits)
qed (use assms in \<open>simp_all add: scanEndedCB_def\<close>)

text \<open>\<open>pRemChar\<close> is written by \<^verbatim>\<open>connectToServer\<close> only.\<close>

lemma pRemChar_oldmillis_update:
  "i < length xs \<Longrightarrow> pRemChar (xs[a := (xs ! a)\<lparr>oldmillis := t\<rparr>] ! i) = pRemChar (xs ! i)"
  by (cases "a = i") simp_all

lemma pRemChar_onResult_body:
  "i < length (Itag st) \<Longrightarrow> pRemChar (Itag (onResult_body p j st) ! i) = pRemChar (Itag st ! i)"
  by (simp add: onResult_body_def pRemChar_advertized_update)

lemma pRemChar_onResult:
  "i < length (Itag st) \<Longrightarrow> pRemChar (Itag (onResult p st) ! i) = pRemChar (Itag st ! i)"
proof -
  have "i < length (Itag st) \<Longrightarrow>
      pRemChar (Itag (fold (onResult_body p) js st) ! i) = pRemChar (Itag st ! i)" for js
    by (induction js arbitrary: st) (simp_all add: pRemChar_onResult_body)
  then show "i < length (Itag st) \<Longrightarrow> pRemChar (Itag (onResult p st) ! i) = pRemChar (Itag st ! i)"
    by (simp add: onResult_def)
qed

lemma pRemChar_notifyCallback:
  "i < length (Itag st) \<Longrightarrow> pRemChar (Itag (notifyCallback p t st) ! i) = pRemChar (Itag st ! i)"
proof -
  have "i < length (Itag st) \<Longrightarrow>
      pRemChar (Itag (notifyCallback_for p t js st) ! i) = pRemChar (Itag st ! i)" for js
    by (induction js) (simp_all add: pRemChar_oldmillis_update)
  then show "i < length (Itag st) \<Longrightarrow>
      pRemChar (Itag (notifyCallback p t st) ! i) = pRemChar (Itag st ! i)"
    by (simp add: notifyCallback_def)
qed

lemma pRemChar_connectToServer:
  assumes "i < length (Itag st)"
  shows "pRemChar (Itag (connectToServer j r st) ! i) =
     (if i = j \<and> nowConnected r \<and> res r \<and> buttonService r then buttonChar r
      else pRemChar (Itag st ! i))"
proof (cases "\<not> nowConnected r \<or> \<not> res r")
  case True
  then show ?thesis using assms
    by (auto simp: connectToServer_failed pRemChar_client_connect)
next
  case False
  then obtain ms where eq: "connectToServer j r st =
      (client_connect j r st)
        \<lparr>Itag := (if buttonService r
                  then (Itag (client_connect j r st))
                    [j := (Itag (client_connect j r st) ! j)\<lparr>pRemChar := buttonChar r\<rparr>]
                  else Itag (client_connect j r st)),
         serial := serial (client_connect j r st) @ ms\<rparr>"
    using connectToServer_connected [of r j st] by blast
  show ?thesis
  proof (cases "i = j")
    case True
    with False assms show ?thesis by (simp add: eq pRemChar_client_connect)
  next
    case neq: False
    with False assms show ?thesis by (simp add: eq pRemChar_client_connect)
  qed
qed

lemma pRemChar_loop_body:
  assumes "i < length (Itag st)"
  shows "pRemChar (Itag (loop_body rs j st) ! i) =
     (if i = j \<and> advertized (Itag st ! j) \<and> \<not> isConnected st j \<and>
         nowConnected (rs j) \<and> res (rs j) \<and> buttonService (rs j)
      then buttonChar (rs j) else pRemChar (Itag st ! i))"
proof (cases "advertized (Itag st ! j) \<and> \<not> isConnected st j")
  case True
  then show ?thesis using assms by (simp add: loop_body_trial pRemChar_connectToServer)
next
  case False
  then show ?thesis by (auto simp: loop_body_no_trial)
qed

lemma pRemChar_fold_loop_body:
  assumes "i < length (Itag st)" "pRemChar (Itag (fold (loop_body rs) js st) ! i) = Some c"
  shows "pRemChar (Itag st ! i) = Some c \<or>
     nowConnected (rs i) \<and> res (rs i) \<and> buttonService (rs i) \<and> buttonChar (rs i) = Some c"
  using assms
proof (induction js arbitrary: st)
  case Nil
  then show ?case by simp
next
  case (Cons j js)
  have "i < length (Itag (loop_body rs j st))"
    using Cons.prems(1) by simp
  moreover have "pRemChar (Itag (fold (loop_body rs) js (loop_body rs j st)) ! i) = Some c"
    using Cons.prems(2) by simp
  ultimately have "pRemChar (Itag (loop_body rs j st) ! i) = Some c \<or>
     nowConnected (rs i) \<and> res (rs i) \<and> buttonService (rs i) \<and> buttonChar (rs i) = Some c"
    by (rule Cons.IH)
  then show ?case
    using pRemChar_loop_body [OF Cons.prems(1), of rs j] by (auto split: if_splits)
qed

lemma pRemChar_step:
  assumes "i < length (Itag st)" "pRemChar (Itag (step e st) ! i) = Some c"
  shows "pRemChar (Itag st ! i) = Some c \<or>
     (\<exists>now now' rs. e = Pass now now' rs \<and> nowConnected (rs i) \<and> res (rs i) \<and>
        buttonService (rs i) \<and> buttonChar (rs i) = Some c)"
proof (cases e)
  case (Advertisement p)
  with assms show ?thesis by (simp add: pRemChar_onResult)
next
  case ScanEnd
  with assms show ?thesis by (simp add: scanEndedCB_def)
next
  case (Notification p t)
  with assms show ?thesis by (simp add: pRemChar_notifyCallback)
next
  case (ConnectionLost j)
  with assms show ?thesis by (simp add: pRemChar_onDisconnect split: if_splits)
next
  case (Pass now now' rs)
  show ?thesis
  proof (cases "newcontime st < now")
    case False
    with assms Pass show ?thesis by (simp add: loop_def loop_trials_def)
  next
    case True
    with assms Pass
    have "pRemChar (Itag (fold (loop_body rs) [0..<NITAGS st] (st\<lparr>led := False\<rparr>)) ! i) = Some c"
      by (simp add: loop_def loop_trials_def)
    from pRemChar_fold_loop_body [OF _ this] assms(1) Pass show ?thesis by simp
  qed
qed

lemma pRemChar_run:
  assumes "\<forall>t\<in>set (Itag st0). pRemChar t = None" "i < NITAGS st0"
    "pRemChar (Itag (run evs st0) ! i) = Some c"
  shows "\<exists>now now' rs. Pass now now' rs \<in> set evs \<and> nowConnected (rs i) \<and> res (rs i) \<and>
     buttonService (rs i) \<and> buttonChar (rs i) = Some c"
  using assms(3)
proof (induction evs rule: rev_induct)
  case Nil
  then show ?case using assms(1,2) by (simp add: run_def NITAGS_def)
next
  case (snoc e evs)
  have "i < length (Itag (run evs st0))"
    using assms(2) by (simp add: NITAGS_def)
  moreover have "pRemChar (Itag (step e (run evs st0)) ! i) = Some c"
    using snoc.prems by (simp add: run_snoc)
  ultimately consider "pRemChar (Itag (run evs st0) ! i) = Some c"
    | "\<exists>now now' rs. e = Pass now now' rs \<and> nowConnected (rs i) \<and> res (rs i) \<and>
        buttonService (rs i) \<and> buttonChar (rs i) = Some c"
    using pRemChar_step by blast
  then show ?case
  proof cases
    case 1
    from snoc.IH [OF this] show ?thesis by auto
  next
    case 2
    then show ?thesis by auto
  qed
qed

text \<open>
  C5, as amended. Start ITAGFINDER in a state where no client is connected and no
  \<open>pRemChar\<close> is set, and let any events happen. If the client of tag \<open>i\<close> is connected
  afterwards, then \<open>i\<close> is a tag of the table and its flag \<open>advertized\<close> was true after
  some part of the run. The loop body calls \<^verbatim>\<open>connect\<close> only for a tag that is advertised
  and whose client is not connected. If \<open>pRemChar\<close> of tag \<open>i\<close> is not \<^verbatim>\<open>NULL\<close>, it is the
  button characteristic that the library reported for a successful connect of tag \<open>i\<close> in
  some pass of the run, which need not be the pass that made the present connection.
\<close>

theorem connected_was_advertised:
  assumes "\<forall>i. \<not> isConnected st0 i" and "\<forall>t\<in>set (Itag st0). pRemChar t = None"
  shows "(isConnected (run evs st0) i \<longrightarrow>
       i < NITAGS st0 \<and> (\<exists>k\<le>length evs. advertized (Itag (run (take k evs) st0) ! i))) \<and>
     (radio (loop_body rs j st) \<noteq> radio st \<longrightarrow> advertized (Itag st ! j) \<and> \<not> isConnected st j) \<and>
     (i < NITAGS st0 \<and> pRemChar (Itag (run evs st0) ! i) = Some c \<longrightarrow>
       (\<exists>now now' rs. Pass now now' rs \<in> set evs \<and> nowConnected (rs i) \<and> res (rs i) \<and>
          buttonService (rs i) \<and> buttonChar (rs i) = Some c))"
proof (intro conjI)
  show "isConnected (run evs st0) i \<longrightarrow>
       i < NITAGS st0 \<and> (\<exists>k\<le>length evs. advertized (Itag (run (take k evs) st0) ! i))"
  proof (induction evs rule: rev_induct)
    case Nil
    show ?case using assms(1) by (simp add: run_def)
  next
    case (snoc e evs)
    show ?case
    proof
      assume "isConnected (run (evs @ [e]) st0) i"
      then have "isConnected (step e (run evs st0)) i"
        by (simp add: run_snoc)
      then consider "isConnected (run evs st0) i"
        | "i < NITAGS st0" "advertized (Itag (run evs st0) ! i)"
        using isConnected_step [of e "run evs st0" i] by (auto simp: NITAGS_def)
      then show "i < NITAGS st0 \<and>
          (\<exists>k\<le>length (evs @ [e]). advertized (Itag (run (take k (evs @ [e])) st0) ! i))"
      proof cases
        case 1
        with snoc.IH obtain k where "i < NITAGS st0" "k \<le> length evs"
          "advertized (Itag (run (take k evs) st0) ! i)"
          by blast
        then show ?thesis by (intro conjI exI [of _ k]) simp_all
      next
        case 2
        then show ?thesis by (intro conjI exI [of _ "length evs"]) simp_all
      qed
    qed
  qed
  show "radio (loop_body rs j st) \<noteq> radio st \<longrightarrow> advertized (Itag st ! j) \<and> \<not> isConnected st j"
    by (simp add: radio_loop_body)
  show "i < NITAGS st0 \<and> pRemChar (Itag (run evs st0) ! i) = Some c \<longrightarrow>
       (\<exists>now now' rs. Pass now now' rs \<in> set evs \<and> nowConnected (rs i) \<and> res (rs i) \<and>
          buttonService (rs i) \<and> buttonChar (rs i) = Some c)"
    using pRemChar_run [OF assms(2), of i evs c] by blast
qed

theorem connected_was_advertised_witness:
  "(\<forall>i. \<not> isConnected (setup_sketch boot) i) \<and>
   map pRemChar (Itag (setup_sketch boot)) = [None, None, None] \<and>
   isConnected (run [Advertisement ''ff:ff:11:11:a2:fa'', Pass 1000 3000 (\<lambda>i. reply_ok)]
     (setup_sketch boot)) 0 \<and>
   pRemChar (Itag (run [Advertisement ''ff:ff:11:11:a2:fa'', Pass 1000 3000 (\<lambda>i. reply_ok)]
     (setup_sketch boot)) ! 0) = Some 7 \<and>
   (\<exists>k\<le>length [Advertisement ''ff:ff:11:11:a2:fa'', Pass 1000 3000 (\<lambda>i. reply_ok)].
      advertized (Itag (run (take k
        [Advertisement ''ff:ff:11:11:a2:fa'', Pass 1000 3000 (\<lambda>i. reply_ok)])
        (setup_sketch boot)) ! 0)) \<and>
   (\<exists>now now' rs.
      Pass now now' rs \<in> set [Advertisement ''ff:ff:11:11:a2:fa'', Pass 1000 3000 (\<lambda>i. reply_ok)] \<and>
      nowConnected (rs 0) \<and> res (rs 0) \<and> buttonService (rs 0) \<and> buttonChar (rs 0) = Some 7) \<and>
   radio (loop_body (\<lambda>i. reply_ok) 0 tag0_advertised) \<noteq> radio tag0_advertised \<and>
   advertized (Itag tag0_advertised ! 0) \<and> \<not> isConnected tag0_advertised 0"
proof -
  have h: "\<forall>i. \<not> isConnected (setup_sketch boot) i"
    "\<forall>t\<in>set (Itag (setup_sketch boot)). pRemChar t = None"
    by (simp_all add: setup_sketch_def boot_def say_def)
  have c: "isConnected (run [Advertisement ''ff:ff:11:11:a2:fa'', Pass 1000 3000 (\<lambda>i. reply_ok)]
     (setup_sketch boot)) 0"
    "pRemChar (Itag (run [Advertisement ''ff:ff:11:11:a2:fa'', Pass 1000 3000 (\<lambda>i. reply_ok)]
     (setup_sketch boot)) ! 0) = Some 7"
    "0 < NITAGS (setup_sketch boot)"
    using tag0_connected_eq
    by (simp_all add: tag0_connected_def tag0_advertised_def run_def setup_sketch_def boot_def
        NITAGS_def say_def)
  have r: "radio (loop_body (\<lambda>i. reply_ok) 0 tag0_advertised) \<noteq> radio tag0_advertised"
    by (simp add: radio_loop_body tag0_advertised_eq)
  from connected_was_advertised [OF h,
      of "[Advertisement ''ff:ff:11:11:a2:fa'', Pass 1000 3000 (\<lambda>i. reply_ok)]" 0
        "\<lambda>i. reply_ok" 0 tag0_advertised 7] c r
  have "(\<exists>k\<le>length [Advertisement ''ff:ff:11:11:a2:fa'', Pass 1000 3000 (\<lambda>i. reply_ok)].
      advertized (Itag (run (take k
        [Advertisement ''ff:ff:11:11:a2:fa'', Pass 1000 3000 (\<lambda>i. reply_ok)])
        (setup_sketch boot)) ! 0)) \<and>
   (\<exists>now now' rs.
      Pass now now' rs \<in> set [Advertisement ''ff:ff:11:11:a2:fa'', Pass 1000 3000 (\<lambda>i. reply_ok)] \<and>
      nowConnected (rs 0) \<and> res (rs 0) \<and> buttonService (rs 0) \<and> buttonChar (rs 0) = Some 7) \<and>
   advertized (Itag tag0_advertised ! 0) \<and> \<not> isConnected tag0_advertised 0"
    by blast
  moreover have "map pRemChar (Itag (setup_sketch boot)) = [None, None, None]"
    by (simp add: setup_sketch_def boot_def say_def)
  ultimately show ?thesis using h(1) c r by blast
qed

text \<open>
  C5 as stated fails in its second part: the first tag is connected and gets \<open>pRemChar\<close>
  bound, loses the connection, advertises again and is connected again to a peer that
  now shows no button service. The client is connected, and \<open>pRemChar\<close> is still the
  characteristic bound during the connection that is gone.
\<close>

theorem dangling_pRemChar_counterexample:
  "isConnected (run [Pass 9000 9500 (\<lambda>i. reply_silent)] tag0_back) 0 \<and>
   \<not> buttonService reply_silent \<and>
   pRemChar (Itag (run [Pass 9000 9500 (\<lambda>i. reply_silent)] tag0_back) ! 0) = Some 7 \<and>
   pRemChar (Itag tag0_advertised ! 0) = None \<and>
   pRemChar (Itag tag0_connected ! 0) = Some 7 \<and>
   \<not> isConnected tag0_lost 0 \<and> \<not> isConnected tag0_back 0"
  by (simp add: tag0_advertised_eq tag0_connected_eq tag0_back_eq tag0_lost_eq sketch_defs
      reply_defs)


subsection \<open>Passes of the main cycle\<close>

text \<open>The request to restart the scan during the loop over the tags: a request that is
  raised stays raised, and only a callback run during a connect raises one.\<close>

lemma restartscan_loop_body:
  "restartscan (loop_body rs i st) \<longleftrightarrow>
     restartscan st \<or> advertized (Itag st ! i) \<and> \<not> isConnected st i \<and> delivered (rs i) \<noteq> []"
  by (cases "advertized (Itag st ! i) \<and> \<not> isConnected st i")
    (auto simp: loop_body_trial loop_body_no_trial)

lemma restartscan_fold_kept:
  "restartscan st \<Longrightarrow> restartscan (fold (loop_body rs) js st)"
  by (induction js arbitrary: st) (simp_all add: restartscan_loop_body)

lemma restartscan_fold_quiet:
  "\<not> restartscan st \<Longrightarrow> \<forall>j\<in>set js. delivered (rs j) = [] \<Longrightarrow>
   \<not> restartscan (fold (loop_body rs) js st)"
  by (induction js arbitrary: st) (simp_all add: restartscan_loop_body)

lemma restartscan_loop_trials_kept:
  "restartscan st \<Longrightarrow> restartscan (loop_trials now now' rs st)"
  by (simp add: loop_trials_def restartscan_fold_kept)

lemma restartscan_loop_trials_quiet:
  "\<not> restartscan st \<Longrightarrow> \<forall>j<NITAGS st. delivered (rs j) = [] \<Longrightarrow>
   \<not> restartscan (loop_trials now now' rs st)"
  by (simp add: loop_trials_def restartscan_fold_quiet)







lemma loop_keeps [simp]:
  "isConnected (loop now now' rs st) = isConnected (loop_trials now now' rs st)"
  "Itag (loop now now' rs st) = Itag (loop_trials now now' rs st)"
  "newcontime (loop now now' rs st) = newcontime (loop_trials now now' rs st)"
  by (simp_all add: loop_def loop_restart_def handle_beeptimer_def Let_def)




text \<open>
  C4. In ITAGFINDER no callback of the library (advertisement, end of scan, connect,
  disconnect, notification) makes a radio call; the connect and disconnect callbacks
  leave the request in \<open>restartscan\<close>. One pass of \<^verbatim>\<open>loop()\<close> adds to the radio calls
  the connects of its trials and then, if the request is raised, once the three calls
  stop, clear results, start a scan for good; after the pass the request is down. A
  request that is raised when the pass begins is still raised after the trials, so the
  pass services it. If no request is raised when the pass begins and the library runs no
  callback during the connects of the pass, the pass makes no scan call.
\<close>

theorem scan_restart_deferred:
  "radio (onResult p st) = radio st \<and> radio (scanEndedCB st) = radio st \<and>
   radio (onConnect macstr st) = radio st \<and> radio (onDisconnect macstr st) = radio st \<and>
   radio (notifyCallback c t st) = radio st \<and>
   restartscan (onConnect macstr st) \<and> restartscan (onDisconnect macstr st) \<and>
   (\<exists>cs. radio (loop_trials now now' rs st) = radio st @ map ClientConnect cs) \<and>
   radio (loop now now' rs st) =
     radio (loop_trials now now' rs st) @
       (if restartscan (loop_trials now now' rs st)
        then [ScanStop, ScanClearResults, ScanStart 0] else []) \<and>
   \<not> restartscan (loop now now' rs st) \<and>
   (restartscan st \<longrightarrow>
      restartscan (loop_trials now now' rs st) \<and>
      (\<exists>cs. radio (loop now now' rs st) =
         radio st @ map ClientConnect cs @ [ScanStop, ScanClearResults, ScanStart 0])) \<and>
   (\<not> restartscan st \<and> (\<forall>j<NITAGS st. delivered (rs j) = []) \<longrightarrow>
      radio (loop now now' rs st) = radio (loop_trials now now' rs st))"
proof -
  have cb: "restartscan (onConnect macstr st)" "restartscan (onDisconnect macstr st)"
    by (simp_all add: onConnect_def onDisconnect_def Let_def)
  have l: "radio (loop now now' rs st) =
     radio (loop_trials now now' rs st) @
       (if restartscan (loop_trials now now' rs st)
        then [ScanStop, ScanClearResults, ScanStart 0] else [])"
    by (simp add: loop_def loop_restart_def)
  have d: "\<not> restartscan (loop now now' rs st)"
    by (simp add: loop_def loop_restart_def handle_beeptimer_def Let_def)
  obtain cs where cs: "radio (loop_trials now now' rs st) = radio st @ map ClientConnect cs"
    using radio_loop_trials by blast
  have k: "restartscan (loop_trials now now' rs st) \<and>
      (\<exists>cs. radio (loop now now' rs st) =
         radio st @ map ClientConnect cs @ [ScanStop, ScanClearResults, ScanStart 0])"
    if "restartscan st"
  proof
    show r: "restartscan (loop_trials now now' rs st)"
      using that by (rule restartscan_loop_trials_kept)
    have "radio (loop now now' rs st) =
        radio st @ map ClientConnect cs @ [ScanStop, ScanClearResults, ScanStart 0]"
      using r by (simp add: l cs)
    then show "\<exists>cs. radio (loop now now' rs st) =
        radio st @ map ClientConnect cs @ [ScanStop, ScanClearResults, ScanStart 0]" ..
  qed
  have n: "radio (loop now now' rs st) = radio (loop_trials now now' rs st)"
    if "\<not> restartscan st \<and> (\<forall>j<NITAGS st. delivered (rs j) = [])"
    using that restartscan_loop_trials_quiet [of st rs now now'] by (simp add: l)
  have e: "\<exists>cs. radio (loop_trials now now' rs st) = radio st @ map ClientConnect cs"
    using cs ..
  have r: "radio (onResult p st) = radio st" "radio (scanEndedCB st) = radio st"
    "radio (onConnect macstr st) = radio st" "radio (onDisconnect macstr st) = radio st"
    "radio (notifyCallback c t st) = radio st"
    by (simp_all add: scanEndedCB_def)
  show ?thesis using r cb e l d k n by blast
qed

theorem scan_restart_deferred_witness:
  "restartscan tag0_lost \<and> \<not> restartscan (loop 1100 1100 (\<lambda>i. reply_ok) tag0_lost) \<and>
   radio (loop 1100 1100 (\<lambda>i. reply_ok) tag0_lost) =
     radio tag0_lost @ [ScanStop, ScanClearResults, ScanStart 0] \<and>
   restartscan tag0_back \<and> restartscan (loop_trials 9000 9500 (\<lambda>i. reply_fail) tag0_back) \<and>
   (\<exists>cs. radio (loop 9000 9500 (\<lambda>i. reply_fail) tag0_back) =
      radio tag0_back @ map ClientConnect cs @ [ScanStop, ScanClearResults, ScanStart 0]) \<and>
   radio (loop 9000 9500 (\<lambda>i. reply_fail) tag0_back) =
     radio tag0_back @
       [ClientConnect ''ff:ff:11:11:a2:fa'', ScanStop, ScanClearResults, ScanStart 0] \<and>
   \<not> restartscan tag0_advertised \<and> delivered reply_fail = [] \<and>
   radio (loop 1000 3000 (\<lambda>i. reply_fail) tag0_advertised) =
     radio (loop_trials 1000 3000 (\<lambda>i. reply_fail) tag0_advertised)"
proof -
  have t: "loop_trials 1100 1100 (\<lambda>i. reply_ok) tag0_lost = tag0_lost"
    by (simp add: loop_trials_def tag0_lost_eq)
  have h: "restartscan tag0_lost" "restartscan tag0_back" "\<not> restartscan tag0_advertised"
    "delivered reply_fail = []"
    "\<forall>j<NITAGS tag0_advertised. delivered ((\<lambda>i. reply_fail) j) = []"
    by (simp_all add: tag0_lost_eq tag0_back_eq tag0_advertised_eq reply_defs)
  from scan_restart_deferred [of "[]" tag0_lost "[]" None 0 1100 1100 "\<lambda>i. reply_ok"] t h(1)
  have 1: "\<not> restartscan (loop 1100 1100 (\<lambda>i. reply_ok) tag0_lost)"
    "radio (loop 1100 1100 (\<lambda>i. reply_ok) tag0_lost) =
     radio tag0_lost @ [ScanStop, ScanClearResults, ScanStart 0]"
    by simp_all
  from scan_restart_deferred [of "[]" tag0_back "[]" None 0 9000 9500 "\<lambda>i. reply_fail"] h(2)
  have 2: "restartscan (loop_trials 9000 9500 (\<lambda>i. reply_fail) tag0_back)"
    "\<exists>cs. radio (loop 9000 9500 (\<lambda>i. reply_fail) tag0_back) =
      radio tag0_back @ map ClientConnect cs @ [ScanStop, ScanClearResults, ScanStart 0]"
    by blast+
  from scan_restart_deferred
    [of "[]" tag0_advertised "[]" None 0 1000 3000 "\<lambda>i. reply_fail"] h(3,5)
  have 3: "radio (loop 1000 3000 (\<lambda>i. reply_fail) tag0_advertised) =
     radio (loop_trials 1000 3000 (\<lambda>i. reply_fail) tag0_advertised)"
    by blast
  have 4: "radio (loop 9000 9500 (\<lambda>i. reply_fail) tag0_back) =
     radio tag0_back @
       [ClientConnect ''ff:ff:11:11:a2:fa'', ScanStop, ScanClearResults, ScanStart 0]"
    by (simp add: tag0_back_eq tag0_lost_eq sketch_defs reply_defs)
  show ?thesis using h(1-4) 1 2 3 4 by blast
qed




end
